theory Spec2Isabelle
  imports Main "HOL-Library.Log_Nat"
begin

text \<open>
  The rule engine of the Catch Zone game, class \<open>GameEngine\<close> of \<open>gameEngine.js\<close> in its
  version with the catch line and the level ending: three zones, falling bombs and fruits, a
  basket, score and misses, and levels that end when their time is over and the last item is
  gone.
\<close>

section \<open>JavaScript numbers\<close>

text \<open>
  The engine computes fall durations and fall progress with JavaScript numbers, which are
  IEEE 754 binary64 values. A finite double is represented by the rational number it
  denotes; every arithmetic operation computes the exact result and rounds it to the
  nearest double, ties to even (\<open>fl\<close>). The spacing of the doubles around \<open>x\<close> is
  \<open>2 powi e\<close> with \<open>e = max (\<lfloor>log\<^sub>2 \<bar>x\<bar>\<rfloor> - 52) (- 1074)\<close>. Infinities and NaN are not
  represented: no quantity of the engine leaves the finite range. The score, the level, the
  miss count and the two countdowns only take integer values far below \<open>2\<^sup>5\<^sup>3\<close>, where double
  arithmetic is exact; they are integers here.
\<close>

definition rne :: "rat \<Rightarrow> int" where
  "rne y = (let f = \<lfloor>y\<rfloor>; d = y - of_int f in
            if d < 1 / 2 then f else if 1 / 2 < d then f + 1
            else if even f then f else f + 1)"

definition flog2 :: "rat \<Rightarrow> int" where
  "flog2 x = (let a = \<bar>x\<bar> in
     if 1 \<le> a then bitlen \<lfloor>a\<rfloor> - 1
     else (let k = bitlen \<lfloor>1 / a\<rfloor> - 1 in if 1 / a = 2 powi k then - k else - k - 1))"

definition fl :: "rat \<Rightarrow> rat" where
  "fl x = (if x = 0 then 0 else
     let e = max (flog2 x - 52) (- 1074) in of_int (rne (x / 2 powi e)) * 2 powi e)"

definition js_add :: "rat \<Rightarrow> rat \<Rightarrow> rat" where
  "js_add x y = fl (x + y)"

definition js_sub :: "rat \<Rightarrow> rat \<Rightarrow> rat" where
  "js_sub x y = fl (x - y)"

definition js_mul :: "rat \<Rightarrow> rat \<Rightarrow> rat" where
  "js_mul x y = fl (x * y)"

definition js_div :: "rat \<Rightarrow> rat \<Rightarrow> rat" where
  "js_div x y = fl (x / y)"

section \<open>Data of the game engine\<close>

datatype zone = LEFT | CENTER | RIGHT

datatype kind = bomb | apple | pear | orange

text \<open>
  An entry of \<open>itemTypes\<close>; a falling item is an object with the fields of its entry and
  four more. The fields \<open>icon\<close> and \<open>id\<close> are read by the renderer alone and are left out.
\<close>

record itemType =
  type :: kind
  points :: int
  isBomb :: bool

record item = itemType +
  zone :: zone
  progress :: rat
  dropTime :: rat
  caught :: bool

text \<open>
  The poses that \<open>moveBasket\<close> receives are the class names of the pose model: three of
  them are the keys of the object literal \<open>poseToZone\<close> (left, front, right),
  \<open>PoseOther x\<close> is any other string \<open>x\<close>.
\<close>

datatype pose = PoseLeft | PoseFront | PoseRight | PoseOther string

text \<open>
  The lookup \<open>poseToZone[pose]\<close> also finds what the object literal inherits from
  \<open>Object.prototype\<close>: under each of the names below a function, and under \<open>__proto__\<close> the
  prototype itself. These are objects, different from each other and from every string, and
  all of them count as true in a condition. So the field \<open>basketPosition\<close> holds either the
  name of a zone or the member of \<open>Object.prototype\<close> found under a key.
\<close>

definition objectPrototype :: "string list" where
  "objectPrototype =
    [''constructor'', ''__defineGetter__'', ''__defineSetter__'', ''hasOwnProperty'',
     ''__lookupGetter__'', ''__lookupSetter__'', ''isPrototypeOf'', ''propertyIsEnumerable'',
     ''toString'', ''valueOf'', ''__proto__'', ''toLocaleString'']"

datatype position = Zone zone | Inherited string

text \<open>The two messages that \<open>gameOver\<close> is called with: a bomb was caught, or the
  given number of fruits was missed.\<close>

datatype reason = BombCaught | FruitsMissed int

text \<open>What the engine sends out: the five callbacks, and the dialog of \<open>gameOver\<close>
  (message, final score, level reached).\<close>

datatype notification =
    ScoreChange int
  | MissChange int
  | LevelChange int
  | GameEnd int int
  | BasketMove position
  | Alert reason int int

datatype timerKind = LevelTimer | ItemSpawner | ItemUpdater | LevelUpCountdown

text \<open>
  The state is the object's fields together with the part of the host that the engine
  drives: the table of live intervals (\<open>setInterval\<close> returns a fresh non-zero handle),
  the pending removal timeouts (each holds a reference to its item), the allocator of object
  references, and the outputs so far. An element of \<open>items\<close> is a reference with the
  object's present fields, so that \<open>indexOf\<close> compares identities as the source does.
  A callback field holds whether a function is registered.
\<close>

record engine =
  isGameActive :: bool
  score :: int
  level :: int
  missCount :: int
  basketPosition :: position
  items :: "(nat \<times> item) list"
  levelTimer :: "nat option"
  levelTimeRemaining :: int
  isLevelUpPause :: bool
  levelUpCountdown :: int
  levelUpCountdownTimer :: "nat option"
  isLevelEnding :: bool
  itemSpawnTimer :: "nat option"
  itemUpdateTimer :: "nat option"
  onScoreChange :: bool
  onMissChange :: bool
  onLevelChange :: bool
  onGameEnd :: bool
  onBasketMove :: bool
  intervals :: "(nat \<times> timerKind) list"
  nextTimerId :: nat
  timeouts :: "nat list"
  nextRef :: nat
  outputs :: "notification list"

definition maxMisses :: int where
  "maxMisses = 2"

definition levelTimeLimit :: int where
  "levelTimeLimit = 20"

definition zones :: "zone list" where
  "zones = [LEFT, CENTER, RIGHT]"

definition itemTypes :: "itemType list" where
  "itemTypes =
    [\<lparr>type = bomb, points = 0, isBomb = True\<rparr>,
     \<lparr>type = apple, points = 100, isBomb = False\<rparr>,
     \<lparr>type = pear, points = 150, isBomb = False\<rparr>,
     \<lparr>type = orange, points = 200, isBomb = False\<rparr>]"

definition constructor :: engine where
  "constructor =
    \<lparr>isGameActive = False, score = 0, level = 1, missCount = 0,
     basketPosition = Zone CENTER,
     items = [], levelTimer = None, levelTimeRemaining = levelTimeLimit,
     isLevelUpPause = False, levelUpCountdown = 3, levelUpCountdownTimer = None,
     isLevelEnding = False, itemSpawnTimer = None, itemUpdateTimer = None,
     onScoreChange = False, onMissChange = False, onLevelChange = False,
     onGameEnd = False, onBasketMove = False,
     intervals = [], nextTimerId = 1, timeouts = [], nextRef = 0, outputs = []\<rparr>"

section \<open>Timers of the host\<close>

definition setInterval :: "timerKind \<Rightarrow> engine \<Rightarrow> nat \<times> engine" where
  "setInterval k s =
    (nextTimerId s,
     s\<lparr>intervals := intervals s @ [(nextTimerId s, k)], nextTimerId := nextTimerId s + 1\<rparr>)"

definition clearInterval :: "nat option \<Rightarrow> engine \<Rightarrow> engine" where
  "clearInterval h s = s\<lparr>intervals := filter (\<lambda>(i, k). Some i \<noteq> h) (intervals s)\<rparr>"

definition setTimeout :: "nat \<Rightarrow> engine \<Rightarrow> engine" where
  "setTimeout r s = s\<lparr>timeouts := timeouts s @ [r]\<rparr>"

section \<open>Operations of the engine\<close>

text \<open>
  The methods of \<open>GameEngine\<close>, in state-passing style. What only touches the page is left
  out: \<open>updateUI\<close>, \<open>updateTimeUI\<close>, \<open>updateBasketUI\<close>, \<open>renderItems\<close>, the level-up overlay,
  \<open>showFeedback\<close> and \<open>playBasketCatchAnimation\<close>. \<open>getItemSpawnInterval\<close> only sets the
  cadence of the spawner, which the events below leave open.
\<close>

definition clearTimers :: "engine \<Rightarrow> engine" where
  "clearTimers s =
    (let s1 = (case levelTimer s of None \<Rightarrow> s
               | Some h \<Rightarrow> (clearInterval (Some h) s)\<lparr>levelTimer := None\<rparr>);
         s2 = (case itemSpawnTimer s1 of None \<Rightarrow> s1
               | Some h \<Rightarrow> (clearInterval (Some h) s1)\<lparr>itemSpawnTimer := None\<rparr>);
         s3 = (case itemUpdateTimer s2 of None \<Rightarrow> s2
               | Some h \<Rightarrow> (clearInterval (Some h) s2)\<lparr>itemUpdateTimer := None\<rparr>)
     in (case levelUpCountdownTimer s3 of None \<Rightarrow> s3
         | Some h \<Rightarrow> (clearInterval (Some h) s3)\<lparr>levelUpCountdownTimer := None\<rparr>))"

definition stop :: "engine \<Rightarrow> engine" where
  "stop s =
    (let s1 = clearTimers (s\<lparr>isGameActive := False\<rparr>)
     in if onGameEnd s1 then s1\<lparr>outputs := outputs s1 @ [GameEnd (score s1) (level s1)]\<rparr>
        else s1)"

definition startLevelTimer :: "engine \<Rightarrow> engine" where
  "startLevelTimer s = (let (h, s1) = setInterval LevelTimer s in s1\<lparr>levelTimer := Some h\<rparr>)"

definition startLevelUpCountdown :: "engine \<Rightarrow> engine" where
  "startLevelUpCountdown s =
    (let (h, s1) = setInterval LevelUpCountdown s in s1\<lparr>levelUpCountdownTimer := Some h\<rparr>)"

definition pauseForLevelUp :: "engine \<Rightarrow> engine" where
  "pauseForLevelUp s =
    (let s1 = s\<lparr>isLevelUpPause := True, levelUpCountdown := 3\<rparr>;
         s2 = clearInterval (levelTimer s1) s1;
         s3 = clearInterval (itemSpawnTimer s2) s2
     in startLevelUpCountdown s3)"

definition nextLevel :: "engine \<Rightarrow> engine" where
  "nextLevel s =
    pauseForLevelUp
      (s\<lparr>level := level s + 1, levelTimeRemaining := levelTimeLimit, isLevelEnding := False\<rparr>)"

definition startLevelEnding :: "engine \<Rightarrow> engine" where
  "startLevelEnding s =
    (let s1 = s\<lparr>isLevelEnding := True\<rparr>;
         s2 = clearInterval (levelTimer s1) s1;
         s3 = clearInterval (itemSpawnTimer s2) s2
     in if length (items s3) = 0 then nextLevel s3 else s3)"

definition startItemSpawner :: "engine \<Rightarrow> engine" where
  "startItemSpawner s =
    (let (h, s1) = setInterval ItemSpawner s in s1\<lparr>itemSpawnTimer := Some h\<rparr>)"

definition restartItemSpawner :: "engine \<Rightarrow> engine" where
  "restartItemSpawner s = startItemSpawner (clearInterval (itemSpawnTimer s) s)"

definition resumeAfterLevelUp :: "engine \<Rightarrow> engine" where
  "resumeAfterLevelUp s =
    (let s1 = s\<lparr>isLevelUpPause := False\<rparr>;
         s2 = startLevelTimer s1;
         s3 = restartItemSpawner s2
     in if onLevelChange s3 then s3\<lparr>outputs := outputs s3 @ [LevelChange (level s3)]\<rparr>
        else s3)"

definition getDropTime :: "engine \<Rightarrow> rat" where
  "getDropTime s =
    (let baseDropTime = 2;
         decreasePerLevel = fl (2 / 10);
         minDropTime = fl (6 / 10)
     in max (js_sub baseDropTime (js_mul (of_int (level s - 1)) decreasePerLevel)) minDropTime)"

text \<open>
  \<open>spawnItem\<close> draws three random numbers. Its parameters are what the source computes
  from them: the index \<open>Math.floor(Math.random() * 3)\<close> of the zone, whether
  \<open>Math.random() < 0.2\<close>, and the index of the fruit among \<open>itemTypes.slice(1)\<close>.
\<close>

definition spawnItem :: "nat \<Rightarrow> bool \<Rightarrow> nat \<Rightarrow> engine \<Rightarrow> engine" where
  "spawnItem zi isBombDraw fi s =
    (let z = zones ! zi;
         itemType = (if isBombDraw then itemTypes ! 0 else drop 1 itemTypes ! fi);
         item = \<lparr>type = type itemType, points = points itemType, isBomb = isBomb itemType,
                 zone = z, progress = 0, dropTime = getDropTime s, caught = False\<rparr>
     in s\<lparr>items := items s @ [(nextRef s, item)], nextRef := nextRef s + 1\<rparr>)"

definition gameOver :: "reason \<Rightarrow> engine \<Rightarrow> engine" where
  "gameOver r s =
    (let s1 = stop s in s1\<lparr>outputs := outputs s1 @ [Alert r (score s1) (level s1)]\<rparr>)"

definition missItem :: "engine \<Rightarrow> engine" where
  "missItem s =
    (let s1 = s\<lparr>missCount := missCount s + 1\<rparr>;
         s2 = (if onMissChange s1 then s1\<lparr>outputs := outputs s1 @ [MissChange (missCount s1)]\<rparr>
               else s1)
     in if missCount s2 = 1 then s2
        else if maxMisses \<le> missCount s2 then gameOver (FruitsMissed maxMisses) s2
        else s2)"

definition catchItem :: "item \<Rightarrow> engine \<Rightarrow> engine" where
  "catchItem item s =
    (if isBomb item then gameOver BombCaught s
     else (let s1 = s\<lparr>score := score s + points item\<rparr>
           in if onScoreChange s1 then s1\<lparr>outputs := outputs s1 @ [ScoreChange (score s1)]\<rparr>
              else s1))"

definition handleItemReachedBasket :: "item \<Rightarrow> engine \<Rightarrow> engine" where
  "handleItemReachedBasket item s =
    (if Zone (zone item) = basketPosition s then catchItem item s
     else if \<not> isBomb item then missItem s
     else s)"

fun indexOf :: "(nat \<times> item) list \<Rightarrow> nat \<Rightarrow> nat option" where
  "indexOf [] r = None"
| "indexOf (x # xs) r = (if fst x = r then Some 0 else map_option Suc (indexOf xs r))"

text \<open>The function given to \<open>setTimeout\<close> for the item with reference \<open>r\<close>.\<close>

definition removeItem :: "nat \<Rightarrow> engine \<Rightarrow> engine" where
  "removeItem r s =
    (case indexOf (items s) r of
       None \<Rightarrow> s
     | Some itemIndex \<Rightarrow>
         (let s1 = s\<lparr>items := take itemIndex (items s) @ drop (Suc itemIndex) (items s)\<rparr>
          in if isLevelEnding s1 \<and> length (items s1) = 0 then nextLevel s1 else s1))"

definition updateInterval :: rat where
  "updateInterval = js_div 1000 60"

definition catchLine :: rat where
  "catchLine = fl (85 / 100)"

text \<open>The function given to \<open>forEach\<close> by the updater, at the index \<open>i\<close> of \<open>items\<close>.\<close>

definition updateItem :: "nat \<Rightarrow> engine \<Rightarrow> engine" where
  "updateItem i s =
    (let deltaTime = js_div updateInterval 1000;
         (r, item) = items s ! i
     in if \<not> caught item then
          (let item1 = item\<lparr>progress := js_add (progress item) (js_div deltaTime (dropTime item))\<rparr>
           in if catchLine \<le> progress item1 then
                (let item2 = item1\<lparr>caught := True, progress := catchLine\<rparr>;
                     s1 = s\<lparr>items := (items s)[i := (r, item2)]\<rparr>;
                     s2 = handleItemReachedBasket item2 s1
                 in setTimeout r s2)
              else s\<lparr>items := (items s)[i := (r, item1)]\<rparr>)
        else s)"

definition startItemUpdater :: "engine \<Rightarrow> engine" where
  "startItemUpdater s =
    (let (h, s1) = setInterval ItemUpdater s in s1\<lparr>itemUpdateTimer := Some h\<rparr>)"

definition start :: "engine \<Rightarrow> engine" where
  "start s =
    (let s1 = s\<lparr>isGameActive := True, score := 0, level := 1, missCount := 0,
                basketPosition := Zone CENTER, items := [], levelTimeRemaining := levelTimeLimit\<rparr>;
         s2 = startLevelTimer s1;
         s3 = startItemSpawner s2
     in startItemUpdater s3)"

text \<open>The value of \<open>poseToZone[pose]\<close>; \<open>None\<close> is \<open>undefined\<close>, the only result that
  counts as false.\<close>

definition poseToZone :: "pose \<Rightarrow> position option" where
  "poseToZone p =
    (case p of
       PoseLeft \<Rightarrow> Some (Zone LEFT)
     | PoseFront \<Rightarrow> Some (Zone CENTER)
     | PoseRight \<Rightarrow> Some (Zone RIGHT)
     | PoseOther x \<Rightarrow> if x \<in> set objectPrototype then Some (Inherited x) else None)"

definition moveBasket :: "pose \<Rightarrow> engine \<Rightarrow> engine" where
  "moveBasket p s =
    (if \<not> isGameActive s then s
     else (case poseToZone p of
             None \<Rightarrow> s
           | Some newPosition \<Rightarrow>
               if newPosition \<noteq> basketPosition s then
                 (let s1 = s\<lparr>basketPosition := newPosition\<rparr>
                  in if onBasketMove s1
                     then s1\<lparr>outputs := outputs s1 @ [BasketMove (basketPosition s1)]\<rparr>
                     else s1)
               else s))"

section \<open>The callbacks of the timers\<close>

definition levelTimerTick :: "engine \<Rightarrow> engine" where
  "levelTimerTick s =
    (let s1 = s\<lparr>levelTimeRemaining := levelTimeRemaining s - 1\<rparr>
     in if levelTimeRemaining s1 \<le> 0 then startLevelEnding s1 else s1)"

definition levelUpCountdownTick :: "engine \<Rightarrow> engine" where
  "levelUpCountdownTick s =
    (let s1 = s\<lparr>levelUpCountdown := levelUpCountdown s - 1\<rparr>
     in if levelUpCountdown s1 \<le> 0
        then resumeAfterLevelUp (clearInterval (levelUpCountdownTimer s1) s1)
        else s1)"

definition itemSpawnerTick :: "nat \<Rightarrow> bool \<Rightarrow> nat \<Rightarrow> engine \<Rightarrow> engine" where
  "itemSpawnerTick zi isBombDraw fi s =
    (if isGameActive s \<and> \<not> isLevelEnding s then spawnItem zi isBombDraw fi s else s)"

definition itemUpdaterTick :: "engine \<Rightarrow> engine" where
  "itemUpdaterTick s =
    (if \<not> isGameActive s \<or> isLevelUpPause s then s
     else foldl (\<lambda>s i. updateItem i s) s [0..<length (items s)])"

section \<open>Events\<close>

text \<open>
  Each handler runs to completion before the next one starts. An event is a call of the
  command surface or a firing of a live interval or of a pending timeout; the host may
  deliver them in any order. An interval fires only while its handle is in the table, a
  timeout fires once, and the indices drawn by the spawner are below three.
\<close>

datatype event =
    Start
  | Stop
  | MoveBasket pose
  | SetScoreChangeCallback bool
  | SetMissChangeCallback bool
  | SetLevelChangeCallback bool
  | SetGameEndCallback bool
  | SetBasketMoveCallback bool
  | LevelTimerFires nat
  | ItemSpawnerFires nat nat bool nat
  | ItemUpdaterFires nat
  | LevelUpCountdownFires nat
  | TimeoutFires nat

fun step :: "event \<Rightarrow> engine \<Rightarrow> engine option" where
  "step Start s = Some (start s)"
| "step Stop s = Some (stop s)"
| "step (MoveBasket p) s = Some (moveBasket p s)"
| "step (SetScoreChangeCallback b) s = Some (s\<lparr>onScoreChange := b\<rparr>)"
| "step (SetMissChangeCallback b) s = Some (s\<lparr>onMissChange := b\<rparr>)"
| "step (SetLevelChangeCallback b) s = Some (s\<lparr>onLevelChange := b\<rparr>)"
| "step (SetGameEndCallback b) s = Some (s\<lparr>onGameEnd := b\<rparr>)"
| "step (SetBasketMoveCallback b) s = Some (s\<lparr>onBasketMove := b\<rparr>)"
| "step (LevelTimerFires h) s =
     (if (h, LevelTimer) \<in> set (intervals s) then Some (levelTimerTick s) else None)"
| "step (ItemSpawnerFires h zi isBombDraw fi) s =
     (if (h, ItemSpawner) \<in> set (intervals s) \<and> zi < 3 \<and> fi < 3
      then Some (itemSpawnerTick zi isBombDraw fi s) else None)"
| "step (ItemUpdaterFires h) s =
     (if (h, ItemUpdater) \<in> set (intervals s) then Some (itemUpdaterTick s) else None)"
| "step (LevelUpCountdownFires h) s =
     (if (h, LevelUpCountdown) \<in> set (intervals s) then Some (levelUpCountdownTick s) else None)"
| "step (TimeoutFires r) s =
     (if r \<in> set (timeouts s)
      then Some (removeItem r (s\<lparr>timeouts := remove1 r (timeouts s)\<rparr>)) else None)"

fun run :: "event list \<Rightarrow> engine \<Rightarrow> engine option" where
  "run [] s = Some s"
| "run (e # es) s = (case step e s of None \<Rightarrow> None | Some s' \<Rightarrow> run es s')"

inductive reachable :: "engine \<Rightarrow> bool" where
  reachable_constructor: "reachable constructor"
| reachable_step: "reachable s \<Longrightarrow> step e s = Some s' \<Longrightarrow> reachable s'"

section \<open>Auxiliary notions of the proofs\<close>

text \<open>
  What one run of the updater's loop body does to the fields of one item, whatever the rest
  of the state; \<open>items_updateItem\<close> below proves that \<open>updateItem\<close> does exactly this.
\<close>

definition advance :: "item \<Rightarrow> item" where
  "advance item =
    (if caught item then item
     else (let p = js_add (progress item) (js_div (js_div updateInterval 1000) (dropTime item))
           in if catchLine \<le> p then item\<lparr>caught := True, progress := catchLine\<rparr>
              else item\<lparr>progress := p\<rparr>))"

text \<open>
  The items that the engine can hold: the fall duration comes from \<open>getDropTime\<close>, the
  progress of a falling item is below the catch line and that of a caught item is on it.
  In a reachable state the level is positive, the references of the items are distinct and
  allocated, and a pending timeout of an item in the collection means that the item is caught.
\<close>

definition wf_item :: "item \<Rightarrow> bool" where
  "wf_item it \<longleftrightarrow>
     fl (6 / 10) \<le> dropTime it \<and> dropTime it \<le> 3 \<and> 0 \<le> progress it \<and>
     (if caught it then progress it = catchLine else progress it < catchLine)"

definition inv :: "engine \<Rightarrow> bool" where
  "inv s \<longleftrightarrow>
     1 \<le> level s \<and> distinct (map fst (items s)) \<and>
     (\<forall>(r, it) \<in> set (items s). r < nextRef s \<and> wf_item it) \<and>
     (\<forall>r \<in> set (timeouts s). r < nextRef s \<and> (\<forall>it. (r, it) \<in> set (items s) \<longrightarrow> caught it))"

text \<open>\<open>fall n xs\<close> is the collection after \<open>n\<close> runs of the updater in which no item
  reaches the catch line, if there are \<open>n\<close> such runs.\<close>

fun fall :: "nat \<Rightarrow> (nat \<times> item) list \<Rightarrow> (nat \<times> item) list option" where
  "fall 0 xs = Some xs"
| "fall (Suc n) xs =
     (if list_all (\<lambda>x. \<not> caught (advance (snd x))) xs then fall n (map (apsnd advance) xs)
      else None)"

text \<open>
  States and items of the examples: an item in flight at level 1 (fall duration 2), the
  engine running at level 1 with such items at one common progress and the game-end callback
  registered, and the engine with the level ending while one missed apple awaits its removal.
  \<open>progressAfter n p\<close> is the progress after \<open>n\<close> runs of the updater at fall duration 2
  that stay below the catch line.
\<close>

definition falling :: "itemType \<Rightarrow> zone \<Rightarrow> rat \<Rightarrow> item" where
  "falling t z p =
     \<lparr>type = type t, points = points t, isBomb = isBomb t, zone = z, progress = p, dropTime = 2,
      caught = False\<rparr>"

fun progressAfter :: "nat \<Rightarrow> rat \<Rightarrow> rat option" where
  "progressAfter 0 p = Some p"
| "progressAfter (Suc n) p =
     (let q = js_add p (js_div (js_div updateInterval 1000) 2)
      in if catchLine \<le> q then None else progressAfter n q)"

definition running :: "(nat \<times> itemType \<times> zone) list \<Rightarrow> rat \<Rightarrow> engine" where
  "running xs p =
     constructor
       \<lparr>isGameActive := True, onGameEnd := True,
        items := map (\<lambda>(r, t, z). (r, falling t z p)) xs,
        levelTimer := Some 1, itemSpawnTimer := Some 2, itemUpdateTimer := Some 3,
        intervals := [(1, LevelTimer), (2, ItemSpawner), (3, ItemUpdater)],
        nextTimerId := 4, nextRef := length xs\<rparr>"

definition levelEnding :: engine where
  "levelEnding =
     (running [] 0)
       \<lparr>missCount := 1, levelTimeRemaining := 0, isLevelEnding := True,
        items := [(0, (falling (itemTypes ! 1) LEFT catchLine)\<lparr>caught := True\<rparr>)],
        intervals := [(3, ItemUpdater)], timeouts := [0], nextRef := 1\<rparr>"

section \<open>Rounding\<close>

lemma rne_near: "\<bar>of_int (rne y) - y\<bar> \<le> 1 / 2"
proof -
  define f where "f = \<lfloor>y\<rfloor>"
  define d where "d = y - of_int f"
  have d: "0 \<le> d" "d < 1" unfolding d_def f_def by linarith+
  have y: "y = of_int f + d" by (simp add: d_def)
  have r: "rne y = (if d < 1 / 2 then f else if 1 / 2 < d then f + 1
                    else if even f then f else f + 1)"
    unfolding d_def f_def rne_def Let_def by (rule refl)
  consider "d < 1 / 2" | "1 / 2 < d" | "d = 1 / 2" by linarith
  then show ?thesis
  proof cases
    case 1
    then have "rne y = f" by (simp add: r)
    then have "of_int (rne y) - y = - d" by (simp add: d_def)
    then show ?thesis using d 1 by simp
  next
    case 2
    then have "rne y = f + 1" by (simp add: r)
    then have "of_int (rne y) - y = 1 - d" by (simp add: d_def)
    then show ?thesis using d 2 by simp
  next
    case 3
    then have "rne y = f \<or> rne y = f + 1" by (simp add: r)
    then have "of_int (rne y) - y = - d \<or> of_int (rne y) - y = 1 - d" by (auto simp: d_def)
    then show ?thesis using 3 by auto
  qed
qed

lemma rne_nonneg: "0 \<le> y \<Longrightarrow> 0 \<le> rne y"
  by (auto simp: rne_def Let_def)

lemma rne_nonpos: "y \<le> 0 \<Longrightarrow> rne y \<le> 0"
proof -
  assume y: "y \<le> 0"
  have f: "\<lfloor>y\<rfloor> \<le> 0" using y by linarith
  show ?thesis
  proof (cases "\<lfloor>y\<rfloor> = 0")
    case True
    then have "0 \<le> y" by linarith
    with y have "y = 0" by simp
    then show ?thesis by (simp add: rne_def)
  next
    case False
    with f have "\<lfloor>y\<rfloor> + 1 \<le> 0" by linarith
    with f show ?thesis by (auto simp: rne_def Let_def)
  qed
qed

lemma bitlen_pow_le:
  assumes "0 < n"
  shows "(2::rat) powi (bitlen n - 1) \<le> of_int n" and "of_int n + 1 \<le> (2::rat) powi bitlen n"
proof -
  from bitlen_bounds [OF assms]
  have a: "2 ^ nat (bitlen n - 1) \<le> n" and b: "n < 2 ^ nat (bitlen n)" by auto
  have "bitlen n \<noteq> 0" using assms by (simp add: bitlen_eq_zero_iff)
  with bitlen_nonneg [of n] have pos: "0 < bitlen n" by linarith
  have "(2::rat) powi (bitlen n - 1) = 2 ^ nat (bitlen n - 1)"
    using pos by (simp add: power_int_def)
  also have "\<dots> = of_int (2 ^ nat (bitlen n - 1))" by simp
  also have "\<dots> \<le> of_int n" using a by (simp only: of_int_le_iff)
  finally show "(2::rat) powi (bitlen n - 1) \<le> of_int n" .
  have "n + 1 \<le> 2 ^ nat (bitlen n)" using b by simp
  then have "(of_int (n + 1) :: rat) \<le> of_int (2 ^ nat (bitlen n))"
    by (simp only: of_int_le_iff)
  then show "of_int n + 1 \<le> (2::rat) powi bitlen n"
    using pos by (simp add: power_int_def)
qed

lemma flog2_bounds:
  assumes "x \<noteq> 0"
  shows "2 powi flog2 x \<le> \<bar>x\<bar> \<and> \<bar>x\<bar> < 2 powi (flog2 x + 1)"
proof -
  define a where "a = \<bar>x\<bar>"
  have a: "0 < a" using assms by (simp add: a_def)
  show ?thesis
  proof (cases "1 \<le> a")
    case True
    then have n: "0 < \<lfloor>a\<rfloor>" by linarith
    have fa: "of_int \<lfloor>a\<rfloor> \<le> a" "a < of_int \<lfloor>a\<rfloor> + 1" by linarith+
    have e: "flog2 x = bitlen \<lfloor>a\<rfloor> - 1" using True by (simp add: flog2_def a_def)
    have e': "flog2 x + 1 = bitlen \<lfloor>a\<rfloor>" using e by simp
    from bitlen_pow_le [OF n] fa
    have "2 powi (bitlen \<lfloor>a\<rfloor> - 1) \<le> a" "a < 2 powi bitlen \<lfloor>a\<rfloor>" by linarith+
    then show ?thesis unfolding e' unfolding e a_def by simp
  next
    case False
    define y where "y = 1 / a"
    have y: "1 < y" using False a by (simp add: y_def)
    then have n: "0 < \<lfloor>y\<rfloor>" by linarith
    have fy: "of_int \<lfloor>y\<rfloor> \<le> y" "y < of_int \<lfloor>y\<rfloor> + 1" by linarith+
    define k where "k = bitlen \<lfloor>y\<rfloor> - 1"
    have k1: "k + 1 = bitlen \<lfloor>y\<rfloor>" by (simp add: k_def)
    from bitlen_pow_le [OF n] fy
    have k: "2 powi k \<le> y" "y < 2 powi (k + 1)" unfolding k1 unfolding k_def by linarith+
    have ay: "a = 1 / y" using a by (simp add: y_def)
    have fdef: "flog2 x = (if y = 2 powi k then - k else - k - 1)"
      using False by (simp add: flog2_def a_def [symmetric] y_def [symmetric] k_def [symmetric] Let_def)
    show ?thesis
    proof (cases "y = 2 powi k")
      case True
      then have e: "flog2 x = - k" by (simp add: fdef)
      have "a = 2 powi (- k)" using True ay by (simp add: power_int_minus field_simps)
      moreover have "(2::rat) powi (- k) < 2 powi (- k + 1)"
        by (rule power_int_strict_increasing) simp_all
      ultimately show ?thesis unfolding e a_def [symmetric] by simp
    next
      case neq: False
      then have e: "flog2 x = - k - 1" by (simp add: fdef)
      have ylt: "2 powi k < y" using k neq by simp
      have p: "(0::rat) < 2 powi k" "(0::rat) < 2 powi (k + 1)" by simp_all
      have "1 / 2 powi (k + 1) < 1 / y" using k(2) y by (simp add: frac_less2)
      moreover have "1 / y < 1 / 2 powi k" using ylt p by (simp add: frac_less2)
      moreover have "1 / (2::rat) powi (k + 1) = 2 powi (- k - 1)"
        using power_int_minus_divide [of "2::rat" "k + 1"] by simp
      moreover have "1 / (2::rat) powi k = 2 powi (- k - 1 + 1)"
        using power_int_minus_divide [of "2::rat" "k"] by simp
      ultimately show ?thesis unfolding e a_def [symmetric] ay by simp
    qed
  qed
qed

lemma flog2_less:
  assumes "x \<noteq> 0" "\<bar>x\<bar> < 2 powi k"
  shows "flog2 x < k"
proof (rule ccontr)
  assume "\<not> flog2 x < k"
  then have "k \<le> flog2 x" by simp
  then have "(2::rat) powi k \<le> 2 powi flog2 x" by (rule power_int_increasing) simp
  with flog2_bounds [OF assms(1)] assms(2) show False by linarith
qed

lemma fl_error:
  "\<bar>fl x - x\<bar> \<le> 2 powi (max (flog2 x - 52) (- 1074)) / 2"
proof (cases "x = 0")
  case True
  then show ?thesis by (simp add: fl_def del: power_int_numeral_neg_numeral)
next
  case False
  define e where "e = max (flog2 x - 52) (- 1074)"
  define y where "y = x / 2 powi e"
  have x: "y * 2 powi e = x" by (simp add: y_def)
  have "fl x = of_int (rne y) * 2 powi e"
    using False by (simp add: fl_def e_def [symmetric] y_def [symmetric] Let_def)
  then have "fl x - x = (of_int (rne y) - y) * 2 powi e"
    using x by (simp add: algebra_simps)
  then have "\<bar>fl x - x\<bar> = \<bar>of_int (rne y) - y\<bar> * 2 powi e"
    by (simp add: abs_mult)
  also have "\<dots> \<le> 1 / 2 * 2 powi e"
    by (rule mult_right_mono [OF rne_near]) simp
  finally show ?thesis by (simp add: e_def)
qed

lemma fl_nonneg: "0 \<le> x \<Longrightarrow> 0 \<le> fl x"
  by (simp add: fl_def Let_def rne_nonneg del: power_int_numeral_neg_numeral)

lemma fl_nonpos: "x \<le> 0 \<Longrightarrow> fl x \<le> 0"
  by (simp add: fl_def Let_def rne_nonpos mult_le_0_iff divide_le_0_iff
      del: power_int_numeral_neg_numeral)

lemma bitlen_numeral_simps:
  "bitlen 1 = 1"
  "bitlen (numeral (Num.Bit0 n)) = bitlen (numeral n) + 1"
  "bitlen (numeral (Num.Bit1 n)) = bitlen (numeral n) + 1"
  "bitlen (numeral Num.One) = 1"
  by (subst compute_bitlen, simp)+

lemma floor_rat_numeral_divide: "\<lfloor>numeral a / numeral b :: rat\<rfloor> = numeral a div numeral b"
  by (metis floor_divide_of_int_eq of_int_numeral)

text \<open>Rounding a numeral: the definitions, kept from unfolding on anything else.\<close>

lemmas fl_numeral =
  fl_def [of "numeral a / numeral b"] fl_def [of "numeral a"]
  fl_def [of "- (numeral a / numeral b)"] fl_def [of "- numeral a"] fl_def [of 0] fl_def [of 1]
  fl_def [of "1 / numeral b"] fl_def [of "- (1 / numeral b)"]
  for a b

lemmas flog2_numeral =
  flog2_def [of "numeral a / numeral b"] flog2_def [of "numeral a"]
  flog2_def [of "- (numeral a / numeral b)"] flog2_def [of "- numeral a"] flog2_def [of 1]
  flog2_def [of "1 / numeral b"] flog2_def [of "- (1 / numeral b)"]
  for a b

lemmas rne_numeral =
  rne_def [of "numeral a / numeral b"] rne_def [of "numeral a"]
  rne_def [of "- (numeral a / numeral b)"] rne_def [of "- numeral a"] rne_def [of 0] rne_def [of 1]
  rne_def [of "1 / numeral b"] rne_def [of "- (1 / numeral b)"]
  for a b

lemma floor_rat_minus_numeral_divide:
  "\<lfloor>- (numeral a / numeral b) :: rat\<rfloor> = - numeral a div numeral b"
  by (metis floor_divide_of_int_eq of_int_numeral of_int_neg_numeral minus_divide_left)

lemmas fl_eval =
  fl_numeral flog2_numeral rne_numeral Let_def bitlen_numeral_simps floor_rat_numeral_divide
  floor_rat_minus_numeral_divide


lemma fl_error_lt:
  assumes "\<bar>x\<bar> < 2 powi k" "- 1021 \<le> k"
  shows "\<bar>fl x - x\<bar> \<le> 2 powi (k - 54)"
proof (cases "x = 0")
  case True
  then show ?thesis by (simp add: fl_def del: power_int_numeral_neg_numeral)
next
  case False
  then have "flog2 x < k" using assms(1) by (rule flog2_less)
  then have "max (flog2 x - 52) (- 1074) \<le> k - 53" using assms(2) by simp
  then have "(2::rat) powi max (flog2 x - 52) (- 1074) \<le> 2 powi (k - 53)"
    by (rule power_int_increasing) simp
  moreover have "(2::rat) powi (k - 53) = 2 * 2 powi (k - 54)"
    using power_int_add_1 [of "2::rat" "k - 54"] by simp
  ultimately show ?thesis using fl_error [of x] by linarith
qed

section \<open>Fields that the operations leave alone\<close>

lemma clearInterval_fields [simp]:
  "isGameActive (clearInterval h s) = isGameActive s"
  "score (clearInterval h s) = score s"
  "level (clearInterval h s) = level s"
  "missCount (clearInterval h s) = missCount s"
  "basketPosition (clearInterval h s) = basketPosition s"
  "items (clearInterval h s) = items s"
  "levelTimeRemaining (clearInterval h s) = levelTimeRemaining s"
  "isLevelUpPause (clearInterval h s) = isLevelUpPause s"
  "isLevelEnding (clearInterval h s) = isLevelEnding s"
  "onGameEnd (clearInterval h s) = onGameEnd s"
  "onMissChange (clearInterval h s) = onMissChange s"
  "onScoreChange (clearInterval h s) = onScoreChange s"
  "onLevelChange (clearInterval h s) = onLevelChange s"
  "timeouts (clearInterval h s) = timeouts s"
  "nextRef (clearInterval h s) = nextRef s"
  "nextTimerId (clearInterval h s) = nextTimerId s"
  "outputs (clearInterval h s) = outputs s"
  "levelTimer (clearInterval h s) = levelTimer s"
  "itemSpawnTimer (clearInterval h s) = itemSpawnTimer s"
  "itemUpdateTimer (clearInterval h s) = itemUpdateTimer s"
  "levelUpCountdownTimer (clearInterval h s) = levelUpCountdownTimer s"
  "levelUpCountdown (clearInterval h s) = levelUpCountdown s"
  by (simp_all add: clearInterval_def)

lemma clearTimers_fields [simp]:
  "isGameActive (clearTimers s) = isGameActive s"
  "score (clearTimers s) = score s"
  "level (clearTimers s) = level s"
  "missCount (clearTimers s) = missCount s"
  "basketPosition (clearTimers s) = basketPosition s"
  "items (clearTimers s) = items s"
  "levelTimeRemaining (clearTimers s) = levelTimeRemaining s"
  "isLevelUpPause (clearTimers s) = isLevelUpPause s"
  "isLevelEnding (clearTimers s) = isLevelEnding s"
  "onGameEnd (clearTimers s) = onGameEnd s"
  "onMissChange (clearTimers s) = onMissChange s"
  "onScoreChange (clearTimers s) = onScoreChange s"
  "onLevelChange (clearTimers s) = onLevelChange s"
  "timeouts (clearTimers s) = timeouts s"
  "nextRef (clearTimers s) = nextRef s"
  "nextTimerId (clearTimers s) = nextTimerId s"
  "outputs (clearTimers s) = outputs s"
  "levelUpCountdown (clearTimers s) = levelUpCountdown s"
  "levelTimer (clearTimers s) = None"
  "itemSpawnTimer (clearTimers s) = None"
  "itemUpdateTimer (clearTimers s) = None"
  "levelUpCountdownTimer (clearTimers s) = None"
  by (simp_all add: clearTimers_def Let_def split: option.splits)

lemma stop_fields [simp]:
  "isGameActive (stop s) = False"
  "score (stop s) = score s"
  "level (stop s) = level s"
  "missCount (stop s) = missCount s"
  "basketPosition (stop s) = basketPosition s"
  "items (stop s) = items s"
  "levelTimeRemaining (stop s) = levelTimeRemaining s"
  "isLevelUpPause (stop s) = isLevelUpPause s"
  "isLevelEnding (stop s) = isLevelEnding s"
  "onGameEnd (stop s) = onGameEnd s"
  "onMissChange (stop s) = onMissChange s"
  "onScoreChange (stop s) = onScoreChange s"
  "onLevelChange (stop s) = onLevelChange s"
  "timeouts (stop s) = timeouts s"
  "nextRef (stop s) = nextRef s"
  "nextTimerId (stop s) = nextTimerId s"
  "levelUpCountdown (stop s) = levelUpCountdown s"
  "levelTimer (stop s) = None"
  "itemSpawnTimer (stop s) = None"
  "itemUpdateTimer (stop s) = None"
  "levelUpCountdownTimer (stop s) = None"
  "outputs (stop s) = outputs s @ (if onGameEnd s then [GameEnd (score s) (level s)] else [])"
  by (simp_all add: stop_def Let_def)

text \<open>
  C10. \<open>stop\<close> never looks at \<open>isGameActive\<close>: whatever the state, also an engine that
  was never started or is already stopped, it leaves the engine inactive and calls the
  registered game-end callback with the present score and level, so a second \<open>stop\<close>
  notifies a second time.
\<close>

theorem stop_emits_game_end_even_when_inactive:
  "onGameEnd s \<Longrightarrow>
     \<not> isGameActive (stop s) \<and>
     outputs (stop s) = outputs s @ [GameEnd (score s) (level s)] \<and>
     outputs (stop (stop s)) = outputs s @ [GameEnd (score s) (level s), GameEnd (score s) (level s)]"
  by simp

theorem stop_emits_game_end_even_when_inactive_witness:
  "onGameEnd (constructor\<lparr>onGameEnd := True\<rparr>) \<and>
   \<not> isGameActive (constructor\<lparr>onGameEnd := True\<rparr>) \<and>
   \<not> isGameActive (stop (constructor\<lparr>onGameEnd := True\<rparr>)) \<and>
   outputs (stop (constructor\<lparr>onGameEnd := True\<rparr>)) = [GameEnd 0 1] \<and>
   outputs (stop (stop (constructor\<lparr>onGameEnd := True\<rparr>))) = [GameEnd 0 1, GameEnd 0 1]"
  using stop_emits_game_end_even_when_inactive [of "constructor\<lparr>onGameEnd := True\<rparr>"]
  by (simp add: constructor_def)

lemma gameOver_fields [simp]:
  "isGameActive (gameOver r s) = False"
  "score (gameOver r s) = score s"
  "level (gameOver r s) = level s"
  "missCount (gameOver r s) = missCount s"
  "basketPosition (gameOver r s) = basketPosition s"
  "items (gameOver r s) = items s"
  "levelTimeRemaining (gameOver r s) = levelTimeRemaining s"
  "isLevelUpPause (gameOver r s) = isLevelUpPause s"
  "isLevelEnding (gameOver r s) = isLevelEnding s"
  "onGameEnd (gameOver r s) = onGameEnd s"
  "onMissChange (gameOver r s) = onMissChange s"
  "onScoreChange (gameOver r s) = onScoreChange s"
  "onLevelChange (gameOver r s) = onLevelChange s"
  "timeouts (gameOver r s) = timeouts s"
  "nextRef (gameOver r s) = nextRef s"
  "nextTimerId (gameOver r s) = nextTimerId s"
  "levelUpCountdown (gameOver r s) = levelUpCountdown s"
  "levelTimer (gameOver r s) = None"
  "itemSpawnTimer (gameOver r s) = None"
  "itemUpdateTimer (gameOver r s) = None"
  "levelUpCountdownTimer (gameOver r s) = None"
  "outputs (gameOver r s) =
     outputs s @ (if onGameEnd s then [GameEnd (score s) (level s)] else [])
       @ [Alert r (score s) (level s)]"
  by (simp_all add: gameOver_def Let_def)

text \<open>
  C6. A bomb evaluated at the catch line: in the basket's zone it is \<open>gameOver\<close>, whatever
  the miss count, with score and miss count as they were; in another zone the evaluation
  leaves the whole state as it was.
\<close>

theorem bomb_at_catch_line:
  "isBomb item \<Longrightarrow>
     (Zone (zone item) = basketPosition s \<longrightarrow>
        handleItemReachedBasket item s = gameOver BombCaught s \<and>
        \<not> isGameActive (handleItemReachedBasket item s) \<and>
        score (handleItemReachedBasket item s) = score s \<and>
        missCount (handleItemReachedBasket item s) = missCount s) \<and>
     (Zone (zone item) \<noteq> basketPosition s \<longrightarrow> handleItemReachedBasket item s = s)"
  by (simp add: handleItemReachedBasket_def catchItem_def)

lemma missItem_score [simp]: "score (missItem s) = score s"
  by (simp add: missItem_def Let_def)

lemma missItem_missCount [simp]: "missCount (missItem s) = missCount s + 1"
  by (simp add: missItem_def Let_def)

text \<open>
  C7. A fruit, that is an item with the fields of one of the entries of \<open>itemTypes\<close> after
  the first, is worth 100 (apple), 150 (pear) or 200 (orange). Evaluated at the catch line in
  the basket's zone it adds exactly its points to the score and leaves the miss count; in
  another zone it adds exactly one to the miss count and leaves the score.
\<close>

theorem fruit_at_catch_line:
  "itemType.truncate item \<in> set (drop 1 itemTypes) \<Longrightarrow>
     points item = (case type item of apple \<Rightarrow> 100 | pear \<Rightarrow> 150 | orange \<Rightarrow> 200 | bomb \<Rightarrow> 0) \<and>
     type item \<noteq> bomb \<and>
     (Zone (zone item) = basketPosition s \<longrightarrow>
        score (handleItemReachedBasket item s) = score s + points item \<and>
        missCount (handleItemReachedBasket item s) = missCount s) \<and>
     (Zone (zone item) \<noteq> basketPosition s \<longrightarrow>
        missCount (handleItemReachedBasket item s) = missCount s + 1 \<and>
        score (handleItemReachedBasket item s) = score s)"
  by (auto simp: itemTypes_def itemType.truncate_def handleItemReachedBasket_def catchItem_def Let_def)

theorem bomb_at_catch_line_witness:
  "isBomb (falling (itemTypes ! 0) CENTER catchLine) \<and>
   isBomb (falling (itemTypes ! 0) LEFT catchLine) \<and>
   basketPosition (running [] 0) = Zone CENTER \<and> isGameActive (running [] 0) \<and>
   \<not> isGameActive
       (handleItemReachedBasket (falling (itemTypes ! 0) CENTER catchLine) (running [] 0)) \<and>
   score (handleItemReachedBasket (falling (itemTypes ! 0) CENTER catchLine) (running [] 0)) =
     score (running [] 0) \<and>
   missCount (handleItemReachedBasket (falling (itemTypes ! 0) CENTER catchLine) (running [] 0)) =
     missCount (running [] 0) \<and>
   handleItemReachedBasket (falling (itemTypes ! 0) LEFT catchLine) (running [] 0) =
     running [] 0"
  using bomb_at_catch_line [of "falling (itemTypes ! 0) CENTER catchLine" "running [] 0"]
    bomb_at_catch_line [of "falling (itemTypes ! 0) LEFT catchLine" "running [] 0"]
  by (simp add: falling_def running_def itemTypes_def constructor_def)

theorem fruit_at_catch_line_witness:
  "itemType.truncate (falling (itemTypes ! 2) LEFT catchLine) \<in> set (drop 1 itemTypes) \<and>
   itemType.truncate (falling (itemTypes ! 2) CENTER catchLine) \<in> set (drop 1 itemTypes) \<and>
   type (falling (itemTypes ! 2) LEFT catchLine) = pear \<and>
   basketPosition (running [] 0) = Zone CENTER \<and>
   missCount (handleItemReachedBasket (falling (itemTypes ! 2) LEFT catchLine) (running [] 0)) =
     missCount (running [] 0) + 1 \<and>
   score (handleItemReachedBasket (falling (itemTypes ! 2) LEFT catchLine) (running [] 0)) =
     score (running [] 0) \<and>
   score (handleItemReachedBasket (falling (itemTypes ! 2) CENTER catchLine) (running [] 0)) =
     score (running [] 0) + 150 \<and>
   missCount (handleItemReachedBasket (falling (itemTypes ! 2) CENTER catchLine) (running [] 0)) =
     missCount (running [] 0)"
  using fruit_at_catch_line [of "falling (itemTypes ! 2) LEFT catchLine" "running [] 0"]
    fruit_at_catch_line [of "falling (itemTypes ! 2) CENTER catchLine" "running [] 0"]
  by (simp add: falling_def running_def itemTypes_def constructor_def itemType.truncate_def)

lemma setInterval_fields [simp]:
  "items (snd (setInterval k s)) = items s"
  "level (snd (setInterval k s)) = level s"
  "nextRef (snd (setInterval k s)) = nextRef s"
  "timeouts (snd (setInterval k s)) = timeouts s"
  "levelTimeRemaining (snd (setInterval k s)) = levelTimeRemaining s"
  "isLevelEnding (snd (setInterval k s)) = isLevelEnding s"
  "isLevelUpPause (snd (setInterval k s)) = isLevelUpPause s"
  "isGameActive (snd (setInterval k s)) = isGameActive s"
  "score (snd (setInterval k s)) = score s"
  "missCount (snd (setInterval k s)) = missCount s"
  "outputs (snd (setInterval k s)) = outputs s"
  by (simp_all add: setInterval_def)

lemma starters_fields [simp]:
  "items (startLevelTimer s) = items s"
  "level (startLevelTimer s) = level s"
  "nextRef (startLevelTimer s) = nextRef s"
  "timeouts (startLevelTimer s) = timeouts s"
  "levelTimeRemaining (startLevelTimer s) = levelTimeRemaining s"
  "isLevelEnding (startLevelTimer s) = isLevelEnding s"
  "isLevelUpPause (startLevelTimer s) = isLevelUpPause s"
  "isGameActive (startLevelTimer s) = isGameActive s"
  "items (startItemSpawner s) = items s"
  "level (startItemSpawner s) = level s"
  "nextRef (startItemSpawner s) = nextRef s"
  "timeouts (startItemSpawner s) = timeouts s"
  "levelTimeRemaining (startItemSpawner s) = levelTimeRemaining s"
  "isLevelEnding (startItemSpawner s) = isLevelEnding s"
  "isLevelUpPause (startItemSpawner s) = isLevelUpPause s"
  "isGameActive (startItemSpawner s) = isGameActive s"
  "items (startItemUpdater s) = items s"
  "level (startItemUpdater s) = level s"
  "nextRef (startItemUpdater s) = nextRef s"
  "timeouts (startItemUpdater s) = timeouts s"
  "levelTimeRemaining (startItemUpdater s) = levelTimeRemaining s"
  "isLevelEnding (startItemUpdater s) = isLevelEnding s"
  "isLevelUpPause (startItemUpdater s) = isLevelUpPause s"
  "isGameActive (startItemUpdater s) = isGameActive s"
  "items (startLevelUpCountdown s) = items s"
  "level (startLevelUpCountdown s) = level s"
  "nextRef (startLevelUpCountdown s) = nextRef s"
  "timeouts (startLevelUpCountdown s) = timeouts s"
  "levelTimeRemaining (startLevelUpCountdown s) = levelTimeRemaining s"
  "isLevelEnding (startLevelUpCountdown s) = isLevelEnding s"
  "isLevelUpPause (startLevelUpCountdown s) = isLevelUpPause s"
  "isGameActive (startLevelUpCountdown s) = isGameActive s"
  "items (restartItemSpawner s) = items s"
  "level (restartItemSpawner s) = level s"
  "nextRef (restartItemSpawner s) = nextRef s"
  "timeouts (restartItemSpawner s) = timeouts s"
  "levelTimeRemaining (restartItemSpawner s) = levelTimeRemaining s"
  "isLevelEnding (restartItemSpawner s) = isLevelEnding s"
  "isLevelUpPause (restartItemSpawner s) = isLevelUpPause s"
  "isGameActive (restartItemSpawner s) = isGameActive s"
  by (simp_all add: startLevelTimer_def startItemSpawner_def startItemUpdater_def
      startLevelUpCountdown_def restartItemSpawner_def split_def Let_def)

lemma pauseForLevelUp_fields [simp]:
  "items (pauseForLevelUp s) = items s"
  "level (pauseForLevelUp s) = level s"
  "nextRef (pauseForLevelUp s) = nextRef s"
  "timeouts (pauseForLevelUp s) = timeouts s"
  "levelTimeRemaining (pauseForLevelUp s) = levelTimeRemaining s"
  "isLevelEnding (pauseForLevelUp s) = isLevelEnding s"
  "isLevelUpPause (pauseForLevelUp s) = True"
  "isGameActive (pauseForLevelUp s) = isGameActive s"
  by (simp_all add: pauseForLevelUp_def Let_def)

lemma nextLevel_fields [simp]:
  "items (nextLevel s) = items s"
  "level (nextLevel s) = level s + 1"
  "nextRef (nextLevel s) = nextRef s"
  "timeouts (nextLevel s) = timeouts s"
  "levelTimeRemaining (nextLevel s) = levelTimeLimit"
  "isLevelEnding (nextLevel s) = False"
  "isLevelUpPause (nextLevel s) = True"
  "isGameActive (nextLevel s) = isGameActive s"
  by (simp_all add: nextLevel_def)

lemma startLevelEnding_fields [simp]:
  "items (startLevelEnding s) = items s"
  "nextRef (startLevelEnding s) = nextRef s"
  "timeouts (startLevelEnding s) = timeouts s"
  "isGameActive (startLevelEnding s) = isGameActive s"
  "level (startLevelEnding s) = (if items s = [] then level s + 1 else level s)"
  "levelTimeRemaining (startLevelEnding s) =
     (if items s = [] then levelTimeLimit else levelTimeRemaining s)"
  "isLevelEnding (startLevelEnding s) = (items s \<noteq> [])"
  "isLevelUpPause (startLevelEnding s) = (if items s = [] then True else isLevelUpPause s)"
  by (simp_all add: startLevelEnding_def Let_def)

lemma resumeAfterLevelUp_fields [simp]:
  "items (resumeAfterLevelUp s) = items s"
  "level (resumeAfterLevelUp s) = level s"
  "nextRef (resumeAfterLevelUp s) = nextRef s"
  "timeouts (resumeAfterLevelUp s) = timeouts s"
  "levelTimeRemaining (resumeAfterLevelUp s) = levelTimeRemaining s"
  "isLevelEnding (resumeAfterLevelUp s) = isLevelEnding s"
  "isLevelUpPause (resumeAfterLevelUp s) = False"
  "isGameActive (resumeAfterLevelUp s) = isGameActive s"
  by (simp_all add: resumeAfterLevelUp_def Let_def)

lemma levelTimerTick_fields [simp]:
  "items (levelTimerTick s) = items s"
  "nextRef (levelTimerTick s) = nextRef s"
  "timeouts (levelTimerTick s) = timeouts s"
  "isGameActive (levelTimerTick s) = isGameActive s"
  by (simp_all add: levelTimerTick_def Let_def)

lemma levelUpCountdownTick_fields [simp]:
  "items (levelUpCountdownTick s) = items s"
  "level (levelUpCountdownTick s) = level s"
  "nextRef (levelUpCountdownTick s) = nextRef s"
  "timeouts (levelUpCountdownTick s) = timeouts s"
  "levelTimeRemaining (levelUpCountdownTick s) = levelTimeRemaining s"
  "isLevelEnding (levelUpCountdownTick s) = isLevelEnding s"
  "isGameActive (levelUpCountdownTick s) = isGameActive s"
  by (simp_all add: levelUpCountdownTick_def Let_def)

lemma spawnItem_fields [simp]:
  "level (spawnItem zi b fi s) = level s"
  "nextRef (spawnItem zi b fi s) = nextRef s + 1"
  "timeouts (spawnItem zi b fi s) = timeouts s"
  "levelTimeRemaining (spawnItem zi b fi s) = levelTimeRemaining s"
  "isLevelEnding (spawnItem zi b fi s) = isLevelEnding s"
  "isLevelUpPause (spawnItem zi b fi s) = isLevelUpPause s"
  "isGameActive (spawnItem zi b fi s) = isGameActive s"
  by (simp_all add: spawnItem_def Let_def)

lemma missItem_fields [simp]:
  "items (missItem s) = items s"
  "level (missItem s) = level s"
  "nextRef (missItem s) = nextRef s"
  "timeouts (missItem s) = timeouts s"
  "levelTimeRemaining (missItem s) = levelTimeRemaining s"
  "isLevelEnding (missItem s) = isLevelEnding s"
  "isLevelUpPause (missItem s) = isLevelUpPause s"
  "basketPosition (missItem s) = basketPosition s"
  by (simp_all add: missItem_def Let_def)

lemma catchItem_fields [simp]:
  "items (catchItem item s) = items s"
  "level (catchItem item s) = level s"
  "nextRef (catchItem item s) = nextRef s"
  "timeouts (catchItem item s) = timeouts s"
  "levelTimeRemaining (catchItem item s) = levelTimeRemaining s"
  "isLevelEnding (catchItem item s) = isLevelEnding s"
  "isLevelUpPause (catchItem item s) = isLevelUpPause s"
  "basketPosition (catchItem item s) = basketPosition s"
  "missCount (catchItem item s) = missCount s"
  by (simp_all add: catchItem_def Let_def)

lemma handleItemReachedBasket_fields [simp]:
  "items (handleItemReachedBasket item s) = items s"
  "level (handleItemReachedBasket item s) = level s"
  "nextRef (handleItemReachedBasket item s) = nextRef s"
  "timeouts (handleItemReachedBasket item s) = timeouts s"
  "levelTimeRemaining (handleItemReachedBasket item s) = levelTimeRemaining s"
  "isLevelEnding (handleItemReachedBasket item s) = isLevelEnding s"
  "isLevelUpPause (handleItemReachedBasket item s) = isLevelUpPause s"
  "basketPosition (handleItemReachedBasket item s) = basketPosition s"
  by (simp_all add: handleItemReachedBasket_def)

lemma updateItem_fields [simp]:
  "level (updateItem i s) = level s"
  "nextRef (updateItem i s) = nextRef s"
  "levelTimeRemaining (updateItem i s) = levelTimeRemaining s"
  "isLevelEnding (updateItem i s) = isLevelEnding s"
  "isLevelUpPause (updateItem i s) = isLevelUpPause s"
  "basketPosition (updateItem i s) = basketPosition s"
  by (simp_all add: updateItem_def Let_def split_def setTimeout_def)

section \<open>The loop of the updater\<close>

lemma items_updateItem:
  "items (updateItem i s) = (items s)[i := (fst (items s ! i), advance (snd (items s ! i)))]"
  by (simp add: updateItem_def advance_def Let_def split_def setTimeout_def)

lemma forEach_fields [simp]:
  "level (foldl (\<lambda>s i. updateItem i s) s is) = level s"
  "nextRef (foldl (\<lambda>s i. updateItem i s) s is) = nextRef s"
  "levelTimeRemaining (foldl (\<lambda>s i. updateItem i s) s is) = levelTimeRemaining s"
  "isLevelEnding (foldl (\<lambda>s i. updateItem i s) s is) = isLevelEnding s"
  "isLevelUpPause (foldl (\<lambda>s i. updateItem i s) s is) = isLevelUpPause s"
  "basketPosition (foldl (\<lambda>s i. updateItem i s) s is) = basketPosition s"
  by (induction "is" arbitrary: s; simp)+

lemma items_forEach:
  "n \<le> length (items s) \<Longrightarrow>
   items (foldl (\<lambda>s i. updateItem i s) s [0..<n]) =
     map (apsnd advance) (take n (items s)) @ drop n (items s)"
proof (induction n)
  case 0
  then show ?case by simp
next
  case (Suc n)
  then have n: "n < length (items s)" by simp
  let ?xs = "items s"
  have "items (foldl (\<lambda>s i. updateItem i s) s [0..<Suc n]) =
        (map (apsnd advance) (take n ?xs) @ drop n ?xs)
          [n := (fst (?xs ! n), advance (snd (?xs ! n)))]"
    using Suc n by (simp add: items_updateItem nth_append)
  also have "\<dots> = map (apsnd advance) (take n ?xs) @ (apsnd advance (?xs ! n)) # drop (Suc n) ?xs"
    using n by (simp add: list_update_append apsnd_def map_prod_def split_def
        flip: Cons_nth_drop_Suc)
  also have "\<dots> = map (apsnd advance) (take (Suc n) ?xs) @ drop (Suc n) ?xs"
    using n by (simp add: take_Suc_conv_app_nth)
  finally show ?case .
qed

lemma itemUpdaterTick_fields [simp]:
  "level (itemUpdaterTick s) = level s"
  "nextRef (itemUpdaterTick s) = nextRef s"
  "levelTimeRemaining (itemUpdaterTick s) = levelTimeRemaining s"
  "isLevelEnding (itemUpdaterTick s) = isLevelEnding s"
  "isLevelUpPause (itemUpdaterTick s) = isLevelUpPause s"
  "basketPosition (itemUpdaterTick s) = basketPosition s"
  by (simp_all add: itemUpdaterTick_def)

lemma items_itemUpdaterTick:
  "items (itemUpdaterTick s) =
     (if \<not> isGameActive s \<or> isLevelUpPause s then items s
      else map (apsnd advance) (items s))"
  by (simp add: itemUpdaterTick_def items_forEach)

lemma moveBasket_fields [simp]:
  "items (moveBasket p s) = items s"
  "level (moveBasket p s) = level s"
  "nextRef (moveBasket p s) = nextRef s"
  "timeouts (moveBasket p s) = timeouts s"
  "levelTimeRemaining (moveBasket p s) = levelTimeRemaining s"
  "isLevelEnding (moveBasket p s) = isLevelEnding s"
  by (simp_all add: moveBasket_def Let_def split: option.splits)

lemma start_fields [simp]:
  "items (start s) = []"
  "level (start s) = 1"
  "nextRef (start s) = nextRef s"
  "timeouts (start s) = timeouts s"
  "levelTimeRemaining (start s) = levelTimeLimit"
  "isLevelEnding (start s) = isLevelEnding s"
  "isGameActive (start s) = True"
  by (simp_all add: start_def Let_def)

lemma length_items_removeItem:
  "items (removeItem r s) \<noteq> [] \<Longrightarrow> level (removeItem r s) = level s"
  by (auto simp: removeItem_def Let_def split: option.splits)

lemma level_step_while_items:
  assumes "step e s = Some s'" "items s' \<noteq> []"
  shows "level s' = level s"
  using assms
  by (cases e) (auto simp: itemSpawnerTick_def levelTimerTick_def Let_def
      length_items_removeItem split: if_splits)


section \<open>One step of fall\<close>

lemma catchLine_val: "catchLine = 7656119366529843 / 9007199254740992"
  by (simp add: catchLine_def fl_eval)

lemma minDropTime_val:
  "fl (6 / 10) = 5404319552844595 / 9007199254740992"
  "fl (3 / 5) = 5404319552844595 / 9007199254740992"
  by (simp_all add: fl_eval)

lemma deltaTime_val: "js_div updateInterval 1000 = 4803839602528529 / 288230376151711744"
  by (simp add: updateInterval_def js_div_def fl_eval)

lemma getDropTime_bounds:
  assumes "1 \<le> level s"
  shows "fl (6 / 10) \<le> getDropTime s" "getDropTime s \<le> 3"
proof -
  define t where "t = js_mul (of_int (level s - 1)) (fl (2 / 10))"
  have "0 \<le> fl (2 / 10)" by (rule fl_nonneg) simp
  then have "0 \<le> of_int (level s - 1) * fl (2 / 10)" using assms by simp
  then have t: "0 \<le> t" unfolding t_def js_mul_def by (rule fl_nonneg)
  have g: "getDropTime s = max (fl (2 - t)) (fl (6 / 10))"
    by (simp add: getDropTime_def js_sub_def t_def Let_def)
  show "fl (6 / 10) \<le> getDropTime s" unfolding g by simp
  have "fl (2 - t) \<le> 3"
  proof (cases "2 - t \<le> 0")
    case True
    then have "fl (2 - t) \<le> 0" by (rule fl_nonpos)
    then show ?thesis by simp
  next
    case False
    then have "\<bar>2 - t\<bar> < 2 powi 2" using t by simp
    then have "\<bar>fl (2 - t) - (2 - t)\<bar> \<le> 2 powi (2 - 54)" by (rule fl_error_lt) simp
    then have "\<bar>fl (2 - t) - (2 - t)\<bar> \<le> 1" by simp
    with t show ?thesis by linarith
  qed
  then show "getDropTime s \<le> 3" unfolding g by (simp add: minDropTime_val)
qed

lemma step_size:
  assumes "fl (6 / 10) \<le> d" "d \<le> 3"
  shows "1 / 256 \<le> js_div (js_div updateInterval 1000) d"
    and "js_div (js_div updateInterval 1000) d \<le> 1 / 16"
proof -
  let ?q = "4803839602528529 / 288230376151711744 / d"
  have d: "5404319552844595 / 9007199254740992 \<le> d" using assms(1) by (simp add: minDropTime_val)
  then have dpos: "0 < d" by linarith
  have lo: "1 / 200 \<le> ?q" using dpos assms(2) by (simp add: field_simps)
  have hi: "?q \<le> 1 / 32" using dpos d by (simp add: field_simps)
  have "\<bar>?q\<bar> < 2 powi 0" using lo hi by simp
  then have "\<bar>fl ?q - ?q\<bar> \<le> 2 powi (0 - 54)" by (rule fl_error_lt) simp
  then have e: "\<bar>fl ?q - ?q\<bar> \<le> 1 / 1024" by simp
  show "1 / 256 \<le> js_div (js_div updateInterval 1000) d"
    unfolding deltaTime_val js_div_def [of _ d] using e lo by linarith
  show "js_div (js_div updateInterval 1000) d \<le> 1 / 16"
    unfolding deltaTime_val js_div_def [of _ d] using e hi by linarith
qed

lemma js_add_increases:
  assumes "0 \<le> p" "p < 1" "1 / 256 \<le> d" "d \<le> 1 / 16"
  shows "p < js_add p d"
proof -
  have "\<bar>p + d\<bar> < 2 powi 1" using assms by simp
  then have "\<bar>fl (p + d) - (p + d)\<bar> \<le> 2 powi (1 - 54)" by (rule fl_error_lt) simp
  then have "\<bar>fl (p + d) - (p + d)\<bar> \<le> 1 / 1024" by simp
  then show ?thesis unfolding js_add_def using assms by linarith
qed

lemma advance_uncaught:
  assumes "wf_item it" "\<not> caught it"
  shows "progress it < progress (advance it)" "wf_item (advance it)"
proof -
  let ?d = "js_div (js_div updateInterval 1000) (dropTime it)"
  let ?p = "js_add (progress it) ?d"
  from assms have w: "fl (6 / 10) \<le> dropTime it" "dropTime it \<le> 3" "0 \<le> progress it"
    "progress it < catchLine" by (simp_all add: wf_item_def)
  have c1: "catchLine < 1" by (simp add: catchLine_val)
  have inc: "progress it < ?p"
    using w(3) _ step_size [OF w(1,2)] by (rule js_add_increases) (use w(4) c1 in linarith)
  show "progress it < progress (advance it)"
    using assms(2) inc w(4) by (simp add: advance_def Let_def)
  show "wf_item (advance it)"
    using assms(2) inc w by (simp add: advance_def Let_def wf_item_def)
qed

lemma advance_caught: "caught it \<Longrightarrow> advance it = it"
  by (simp add: advance_def)

lemma wf_item_advance: "wf_item it \<Longrightarrow> wf_item (advance it)"
  by (cases "caught it") (simp_all add: advance_caught advance_uncaught)

section \<open>An invariant of the reachable states\<close>

lemma timeouts_updateItem:
  "timeouts (updateItem i s) =
     (if \<not> caught (snd (items s ! i)) \<and> caught (advance (snd (items s ! i)))
      then timeouts s @ [fst (items s ! i)] else timeouts s)"
  by (simp add: updateItem_def advance_def Let_def split_def setTimeout_def)

lemma timeouts_forEach:
  assumes "n \<le> length (items s)" "r \<in> set (timeouts (foldl (\<lambda>s i. updateItem i s) s [0..<n]))"
  shows "r \<in> set (timeouts s) \<or>
         (\<exists>i<n. r = fst (items s ! i) \<and> caught (advance (snd (items s ! i))))"
  using assms
proof (induction n arbitrary: r)
  case 0
  then show ?case by simp
next
  case (Suc n)
  let ?s = "foldl (\<lambda>s i. updateItem i s) s [0..<n]"
  have n: "n < length (items s)" using Suc.prems by simp
  have at: "items ?s ! n = items s ! n"
    using n by (simp add: items_forEach nth_append)
  from Suc.prems(2) have "r \<in> set (timeouts (updateItem n ?s))" by simp
  then consider "r \<in> set (timeouts ?s)"
    | "r = fst (items s ! n)" "caught (advance (snd (items s ! n)))"
    by (auto simp: timeouts_updateItem at split: if_splits)
  then show ?case
  proof cases
    case 1
    with Suc.IH [of r] n show ?thesis by (auto intro: less_SucI)
  next
    case 2
    then show ?thesis by auto
  qed
qed

lemma timeouts_itemUpdaterTick:
  assumes "r \<in> set (timeouts (itemUpdaterTick s))"
  shows "r \<in> set (timeouts s) \<or> (\<exists>it. (r, it) \<in> set (items s) \<and> caught (advance it))"
proof (cases "\<not> isGameActive s \<or> isLevelUpPause s")
  case True
  with assms show ?thesis by (simp add: itemUpdaterTick_def)
next
  case False
  with assms have "r \<in> set (timeouts (foldl (\<lambda>s i. updateItem i s) s [0..<length (items s)]))"
    by (simp add: itemUpdaterTick_def)
  from timeouts_forEach [OF le_refl this] show ?thesis
  proof
    assume "r \<in> set (timeouts s)"
    then show ?thesis by simp
  next
    assume "\<exists>i<length (items s). r = fst (items s ! i) \<and> caught (advance (snd (items s ! i)))"
    then obtain i where i: "i < length (items s)" "r = fst (items s ! i)"
      "caught (advance (snd (items s ! i)))" by blast
    then have "(r, snd (items s ! i)) \<in> set (items s)"
      by (metis nth_mem prod.collapse)
    with i(3) show ?thesis by blast
  qed
qed

lemma inv_same:
  assumes "inv s" "1 \<le> level s \<Longrightarrow> 1 \<le> level s'" "items s' = items s" "nextRef s' = nextRef s"
    "timeouts s' = timeouts s"
  shows "inv s'"
  using assms by (simp add: inv_def)

lemma inv_constructor: "inv constructor"
  by (simp add: inv_def constructor_def)

lemma inv_start: "inv s \<Longrightarrow> inv (start s)"
  by (simp add: inv_def)

lemma items_spawnItem:
  "\<exists>new. items (spawnItem zi b fi s) = items s @ [(nextRef s, new)] \<and>
         progress new = 0 \<and> \<not> caught new \<and> dropTime new = getDropTime s"
  by (simp add: spawnItem_def Let_def)

lemma inv_spawnItem:
  assumes "inv s"
  shows "inv (spawnItem zi b fi s)"
proof -
  from items_spawnItem obtain new where
    items: "items (spawnItem zi b fi s) = items s @ [(nextRef s, new)]" and
    new: "progress new = 0" "\<not> caught new" "dropTime new = getDropTime s"
    by blast
  have l: "1 \<le> level s" using assms by (simp add: inv_def)
  have wf: "wf_item new"
    using getDropTime_bounds [OF l] new by (simp add: wf_item_def catchLine_val)
  have fresh: "nextRef s \<notin> fst ` set (items s)"
    using assms by (auto simp: inv_def)
  have t: "\<forall>r \<in> set (timeouts s). r \<noteq> nextRef s"
    using assms by (auto simp: inv_def)
  show ?thesis
    unfolding inv_def items
    using assms wf fresh t by (auto simp: inv_def less_SucI)
qed

lemma inv_itemUpdaterTick:
  assumes "inv s"
  shows "inv (itemUpdaterTick s)"
proof -
  have d: "distinct (map fst (items s))" using assms by (simp add: inv_def)
  have fst_same: "map fst (items (itemUpdaterTick s)) = map fst (items s)"
    by (simp add: items_itemUpdaterTick)
  have mem: "\<exists>it. (r, it) \<in> set (items s) \<and> (it' = it \<or> it' = advance it)"
    if "(r, it') \<in> set (items (itemUpdaterTick s))" for r it'
    using that by (auto simp: items_itemUpdaterTick split: if_splits)
  have uniq: "it1 = it2" if "(r, it1) \<in> set (items s)" "(r, it2) \<in> set (items s)" for r it1 it2
    using d that by (meson eq_key_imp_eq_value)
  show ?thesis
    unfolding inv_def
  proof (intro conjI ballI allI impI)
    show "1 \<le> level (itemUpdaterTick s)" using assms by (simp add: inv_def)
    show "distinct (map fst (items (itemUpdaterTick s)))" using d by (simp add: fst_same)
    show "case x of (r, it) \<Rightarrow> r < nextRef (itemUpdaterTick s) \<and> wf_item it"
      if "x \<in> set (items (itemUpdaterTick s))" for x
    proof -
      obtain r it' where x: "x = (r, it')" by (cases x)
      from mem that x obtain it where it: "(r, it) \<in> set (items s)" "it' = it \<or> it' = advance it"
        by blast
      with assms have "r < nextRef s" "wf_item it" by (auto simp: inv_def)
      with it(2) show ?thesis by (auto simp: x wf_item_advance)
    qed
    show "r < nextRef (itemUpdaterTick s)" if "r \<in> set (timeouts (itemUpdaterTick s))" for r
      using timeouts_itemUpdaterTick [OF that] assms by (auto simp: inv_def)
    show "caught it'"
      if r: "r \<in> set (timeouts (itemUpdaterTick s))" and m: "(r, it') \<in> set (items (itemUpdaterTick s))"
      for r it'
    proof -
      from mem [OF m] obtain it where it: "(r, it) \<in> set (items s)" "it' = it \<or> it' = advance it"
        by blast
      have run: "it' = advance it \<or> caught it \<longrightarrow> it' = advance it"
        using it(2) by (auto simp: advance_caught)
      from timeouts_itemUpdaterTick [OF r] show ?thesis
      proof
        assume "r \<in> set (timeouts s)"
        with assms it(1) have "caught it" by (auto simp: inv_def)
        with it(2) show ?thesis by (auto simp: advance_caught)
      next
        assume "\<exists>it. (r, it) \<in> set (items s) \<and> caught (advance it)"
        then obtain it2 where "(r, it2) \<in> set (items s)" "caught (advance it2)" by blast
        with uniq it(1) have c: "caught (advance it)" by blast
        show ?thesis
        proof (cases "\<not> isGameActive s \<or> isLevelUpPause s")
          case True
          then have "timeouts (itemUpdaterTick s) = timeouts s" by (simp add: itemUpdaterTick_def)
          with r assms it(1) have "caught it" by (auto simp: inv_def)
          with it(2) show ?thesis by (auto simp: advance_caught)
        next
          case False
          with m have "\<exists>it0. (r, it0) \<in> set (items s) \<and> it' = advance it0"
            by (auto simp: items_itemUpdaterTick)
          with uniq it(1) have "it' = advance it" by blast
          with c show ?thesis by simp
        qed
      qed
    qed
  qed
qed

lemma indexOf_Some: "indexOf xs r = Some i \<Longrightarrow> i < length xs \<and> fst (xs ! i) = r"
proof (induction xs arbitrary: i)
  case Nil
  then show ?case by simp
next
  case (Cons x xs)
  then show ?case by (cases i) (auto split: if_splits)
qed

lemma indexOf_None: "indexOf xs r = None \<longleftrightarrow> r \<notin> fst ` set xs"
  by (induction xs) auto

lemma items_removeItem:
  "items (removeItem r s) =
     (case indexOf (items s) r of None \<Rightarrow> items s
      | Some i \<Rightarrow> take i (items s) @ drop (Suc i) (items s))"
  by (simp add: removeItem_def Let_def split: option.splits)

lemma removeItem_fields [simp]:
  "nextRef (removeItem r s) = nextRef s"
  "timeouts (removeItem r s) = timeouts s"
  "level s \<le> level (removeItem r s)"
  by (simp_all add: removeItem_def Let_def split: option.splits)

lemma set_items_removeItem: "set (items (removeItem r s)) \<subseteq> set (items s)"
  by (auto simp: items_removeItem split: option.splits dest: in_set_takeD in_set_dropD)

lemma distinct_take_drop_Suc:
  assumes "distinct ys"
  shows "distinct (take i ys @ drop (Suc i) ys)"
proof -
  have "distinct (take i ys @ drop i ys)" using assms by simp
  then have a: "distinct (take i ys)" "set (take i ys) \<inter> set (drop i ys) = {}"
    unfolding distinct_append by blast+
  have "set (drop (Suc i) ys) \<subseteq> set (drop i ys)"
    by (rule set_drop_subset_set_drop) simp
  with a assms show ?thesis by (auto simp: distinct_drop)
qed

lemma distinct_items_removeItem:
  "distinct (map fst (items s)) \<Longrightarrow> distinct (map fst (items (removeItem r s)))"
  using distinct_take_drop_Suc [of "map fst (items s)"]
  by (simp add: items_removeItem take_map drop_map split: option.splits)

lemma inv_removeItem:
  assumes "inv s"
  shows "inv (removeItem r (s\<lparr>timeouts := remove1 r (timeouts s)\<rparr>))"
proof -
  let ?s = "s\<lparr>timeouts := remove1 r (timeouts s)\<rparr>"
  have sub: "set (items (removeItem r ?s)) \<subseteq> set (items s)"
    using set_items_removeItem [of r ?s] by simp
  have d: "distinct (map fst (items (removeItem r ?s)))"
    using assms distinct_items_removeItem [of ?s r] by (simp add: inv_def)
  have l: "1 \<le> level (removeItem r ?s)"
    using assms removeItem_fields(3) [of ?s r] by (simp add: inv_def)
  have t: "set (timeouts (removeItem r ?s)) \<subseteq> set (timeouts s)"
    using set_remove1_subset [of r "timeouts s"] by simp
  show ?thesis
    unfolding inv_def using assms sub d l t by (fastforce simp: inv_def)
qed

lemma inv_step:
  assumes "inv s" "step e s = Some s'"
  shows "inv s'"
proof (cases e)
  case Start
  with assms show ?thesis by (auto simp: inv_start)
next
  case (LevelTimerFires h)
  with assms have s': "s' = levelTimerTick s" by (simp split: if_splits)
  have "1 \<le> level s \<Longrightarrow> 1 \<le> level (levelTimerTick s)"
    by (simp add: levelTimerTick_def Let_def)
  with assms(1) show ?thesis unfolding s' by (rule inv_same) simp_all
next
  case (ItemSpawnerFires h zi b fi)
  with assms show ?thesis by (auto simp: itemSpawnerTick_def inv_spawnItem split: if_splits)
next
  case (ItemUpdaterFires h)
  with assms show ?thesis by (auto simp: inv_itemUpdaterTick split: if_splits)
next
  case (TimeoutFires r)
  with assms show ?thesis by (auto simp: inv_removeItem split: if_splits)
qed (use assms in \<open>auto simp: inv_def split: if_splits\<close>)

lemma reachable_inv: "reachable s \<Longrightarrow> inv s"
  by (induction rule: reachable.induct) (auto intro: inv_constructor inv_step)

section \<open>Runs of the updater below the catch line\<close>

lemma updateItem_no_catch:
  "\<not> caught (advance (snd (items s ! i))) \<Longrightarrow>
   updateItem i s = s\<lparr>items := (items s)[i := (fst (items s ! i), advance (snd (items s ! i)))]\<rparr>"
  by (simp add: updateItem_def advance_def Let_def split_def split: if_splits)

lemma forEach_no_catch:
  assumes "n \<le> length (items s)" "\<forall>i<n. \<not> caught (advance (snd (items s ! i)))"
  shows "foldl (\<lambda>s i. updateItem i s) s [0..<n] =
         s\<lparr>items := map (apsnd advance) (take n (items s)) @ drop n (items s)\<rparr>"
  using assms
proof (induction n)
  case 0
  then show ?case by simp
next
  case (Suc n)
  let ?s = "foldl (\<lambda>s i. updateItem i s) s [0..<n]"
  have n: "n < length (items s)" using Suc.prems by simp
  have s: "?s = s\<lparr>items := map (apsnd advance) (take n (items s)) @ drop n (items s)\<rparr>"
    using Suc by simp
  have at: "items ?s ! n = items s ! n" using n by (simp add: s nth_append)
  have "\<not> caught (advance (snd (items ?s ! n)))" using Suc.prems(2) by (simp add: at)
  then have "updateItem n ?s =
      ?s\<lparr>items := (items ?s)[n := (fst (items ?s ! n), advance (snd (items ?s ! n)))]\<rparr>"
    by (rule updateItem_no_catch)
  moreover have "(items ?s)[n := (fst (items ?s ! n), advance (snd (items ?s ! n)))] =
      map (apsnd advance) (take (Suc n) (items s)) @ drop (Suc n) (items s)"
    using items_forEach [of "Suc n" s] n by (simp add: items_updateItem)
  ultimately show ?case by (simp add: s)
qed

lemma itemUpdaterTick_no_catch:
  assumes "isGameActive s" "\<not> isLevelUpPause s"
    "list_all (\<lambda>x. \<not> caught (advance (snd x))) (items s)"
  shows "itemUpdaterTick s = s\<lparr>items := map (apsnd advance) (items s)\<rparr>"
proof -
  have "\<forall>i<length (items s). \<not> caught (advance (snd (items s ! i)))"
    using assms(3) by (simp add: list_all_length)
  from forEach_no_catch [OF le_refl this] assms(1,2) show ?thesis
    by (simp add: itemUpdaterTick_def)
qed

lemma run_append:
  "run (es @ fs) s = (case run es s of None \<Rightarrow> None | Some s' \<Rightarrow> run fs s')"
  by (induction es arbitrary: s) (auto split: option.splits)

lemma run_fall:
  assumes "fall n (items s) = Some ys" "isGameActive s" "\<not> isLevelUpPause s"
    "(h, ItemUpdater) \<in> set (intervals s)"
  shows "run (replicate n (ItemUpdaterFires h)) s = Some (s\<lparr>items := ys\<rparr>)"
  using assms
proof (induction n arbitrary: s)
  case 0
  then show ?case by simp
next
  case (Suc n)
  from Suc.prems(1) have a: "list_all (\<lambda>x. \<not> caught (advance (snd x))) (items s)"
    and f: "fall n (map (apsnd advance) (items s)) = Some ys"
    by (simp_all split: if_splits)
  let ?s = "s\<lparr>items := map (apsnd advance) (items s)\<rparr>"
  have t: "itemUpdaterTick s = ?s"
    using Suc.prems(2,3) a by (rule itemUpdaterTick_no_catch)
  have "run (replicate n (ItemUpdaterFires h)) ?s = Some (?s\<lparr>items := ys\<rparr>)"
    using f Suc.prems(2,3,4) by (intro Suc.IH) simp_all
  then show ?case using Suc.prems(4) by (simp add: t)
qed

lemma run_reachable: "reachable s \<Longrightarrow> run es s = Some s' \<Longrightarrow> reachable s'"
  by (induction es arbitrary: s) (auto split: option.splits intro: reachable_step)

section \<open>Items are caught once\<close>

lemma items_step_other:
  assumes "step e s = Some s'" "\<forall>h. e \<noteq> ItemUpdaterFires h" "x \<in> set (items s')"
  shows "x \<in> set (items s) \<or> fst x = nextRef s"
proof (cases e)
  case (ItemSpawnerFires h zi b fi)
  obtain new where "items (spawnItem zi b fi s) = items s @ [(nextRef s, new)]"
    using items_spawnItem by blast
  with assms ItemSpawnerFires show ?thesis
    by (auto simp: itemSpawnerTick_def split: if_splits)
next
  case (TimeoutFires r)
  with assms set_items_removeItem [of r "s\<lparr>timeouts := remove1 r (timeouts s)\<rparr>"]
  show ?thesis by (auto split: if_splits)
qed (use assms in \<open>auto split: if_splits\<close>)

text \<open>
  C8. In a reachable state, an item present before and after an event is changed by that
  event only if the event is a run of the updater (engine active, no level-up pause) and the
  item is not caught yet. Then its progress grows strictly; the item becomes caught exactly
  when the incremented progress reaches the catch line, its progress is then the catch line
  itself, and otherwise the incremented value. A caught item is never changed again, so it
  stays caught with its progress on the catch line.
\<close>

theorem caught_once_then_frozen:
  assumes "reachable s" "step e s = Some s'" "(r, it) \<in> set (items s)" "(r, it') \<in> set (items s')"
  shows "if (\<exists>h. e = ItemUpdaterFires h) \<and> isGameActive s \<and> \<not> isLevelUpPause s \<and> \<not> caught it
         then progress it < progress it' \<and>
              (caught it' \<longleftrightarrow>
                 catchLine \<le> js_add (progress it)
                   (js_div (js_div updateInterval 1000) (dropTime it))) \<and>
              progress it' =
                (if caught it' then catchLine
                 else js_add (progress it) (js_div (js_div updateInterval 1000) (dropTime it)))
         else it' = it"
proof -
  have i: "inv s" using assms(1) by (rule reachable_inv)
  then have d: "distinct (map fst (items s))" and wf: "wf_item it" and r: "r < nextRef s"
    using assms(3) by (auto simp: inv_def)
  have uniq: "x = it" if "(r, x) \<in> set (items s)" for x
    using d that assms(3) by (meson eq_key_imp_eq_value)
  show ?thesis
  proof (cases "\<exists>h. e = ItemUpdaterFires h")
    case False
    with items_step_other [OF assms(2) _ assms(4)] r have "(r, it') \<in> set (items s)" by auto
    then have "it' = it" by (rule uniq)
    with False show ?thesis by simp
  next
    case True
    then obtain h where e: "e = ItemUpdaterFires h" by blast
    with assms(2) have s': "s' = itemUpdaterTick s" by (simp split: if_splits)
    show ?thesis
    proof (cases "isGameActive s \<and> \<not> isLevelUpPause s")
      case False
      with assms(4) have "(r, it') \<in> set (items s)" by (auto simp: s' items_itemUpdaterTick)
      then have "it' = it" by (rule uniq)
      with False show ?thesis by auto
    next
      case run: True
      with assms(4) obtain x where "(r, x) \<in> set (items s)" "it' = advance x"
        by (auto simp: s' items_itemUpdaterTick)
      with uniq have it': "it' = advance it" by blast
      show ?thesis
      proof (cases "caught it")
        case True
        then show ?thesis by (simp add: it' advance_caught)
      next
        case False
        from advance_uncaught(1) [OF wf False] have "progress it < progress it'" by (simp add: it')
        with False run True show ?thesis by (simp add: it' advance_def Let_def)
      qed
    qed
  qed
qed

section \<open>The end of a level\<close>

lemma items_nonempty_kept:
  assumes "step e s = Some s'" "e \<noteq> Start" "\<forall>r. e \<noteq> TimeoutFires r" "items s \<noteq> []"
  shows "items s' \<noteq> []"
proof (cases e)
  case (ItemSpawnerFires h zi b fi)
  obtain new where "items (spawnItem zi b fi s) = items s @ [(nextRef s, new)]"
    using items_spawnItem by blast
  with assms ItemSpawnerFires show ?thesis by (auto simp: itemSpawnerTick_def split: if_splits)
next
  case (ItemUpdaterFires h)
  with assms show ?thesis by (auto simp: items_itemUpdaterTick split: if_splits)
qed (use assms in \<open>auto split: if_splits\<close>)

lemma removeItem_last:
  assumes "items s \<noteq> []" "items (removeItem r s) = []"
  shows "level (removeItem r s) = (if isLevelEnding s then level s + 1 else level s)"
    and "isLevelEnding s \<Longrightarrow> levelTimeRemaining (removeItem r s) = levelTimeLimit"
  using assms by (auto simp: removeItem_def Let_def split: option.splits if_splits)

lemma levelTimerTick_at_zero:
  assumes "levelTimeRemaining s \<le> 1"
  shows "items s = [] \<Longrightarrow> level (levelTimerTick s) = level s + 1"
    and "items s = [] \<Longrightarrow> levelTimeRemaining (levelTimerTick s) = levelTimeLimit"
    and "items s \<noteq> [] \<Longrightarrow> level (levelTimerTick s) = level s"
    and "items s \<noteq> [] \<Longrightarrow> isLevelEnding (levelTimerTick s)"
  using assms by (simp_all add: levelTimerTick_def Let_def)

lemma removed_item_was_caught:
  assumes "reachable s" "step e s = Some s'" "e \<noteq> Start" "(r, it) \<in> set (items s)"
    "r \<notin> fst ` set (items s')"
  shows "caught it \<and> e = TimeoutFires r"
proof (cases e)
  case (ItemSpawnerFires h zi b fi)
  obtain new where "items (spawnItem zi b fi s) = items s @ [(nextRef s, new)]"
    using items_spawnItem by blast
  with assms ItemSpawnerFires show ?thesis
    by (auto simp: itemSpawnerTick_def image_iff split: if_splits)
next
  case (ItemUpdaterFires h)
  with assms have "map fst (items s') = map fst (items s)"
    by (auto simp: items_itemUpdaterTick split: if_splits)
  then have "fst ` set (items s') = fst ` set (items s)" by (metis set_map)
  with assms(4,5) show ?thesis by force
next
  case (TimeoutFires q)
  let ?s = "s\<lparr>timeouts := remove1 q (timeouts s)\<rparr>"
  from assms TimeoutFires have q: "q \<in> set (timeouts s)" and s': "s' = removeItem q ?s"
    by (auto split: if_splits)
  have i: "inv s" using assms(1) by (rule reachable_inv)
  have "r = q"
  proof (rule ccontr)
    assume n: "r \<noteq> q"
    have "(r, it) \<in> set (items (removeItem q ?s))"
    proof (cases "indexOf (items s) q")
      case None
      then show ?thesis using assms(4) by (simp add: items_removeItem)
    next
      case (Some i)
      from indexOf_Some [OF Some] have i: "i < length (items s)" "fst (items s ! i) = q" by auto
      from assms(4) have "(r, it) \<in> set (take i (items s) @ items s ! i # drop (Suc i) (items s))"
        using i(1) by (simp add: id_take_nth_drop [symmetric])
      moreover have "items s ! i \<noteq> (r, it)" using n i(2) by auto
      ultimately have "(r, it) \<in> set (take i (items s) @ drop (Suc i) (items s))" by auto
      then show ?thesis using Some by (simp add: items_removeItem)
    qed
    with assms(5) show False unfolding s' by force
  qed
  moreover from this q i assms(4) have "caught it" by (auto simp: inv_def)
  ultimately show ?thesis using TimeoutFires by simp
qed (use assms in \<open>force split: if_splits\<close>)+

lemma isLevelEnding_removeItem:
  "isLevelEnding s \<Longrightarrow> items (removeItem r s) \<noteq> [] \<Longrightarrow> isLevelEnding (removeItem r s)"
  by (auto simp: removeItem_def Let_def split: option.splits)

lemma level_ending_kept:
  assumes "step e s = Some s'" "isLevelEnding s" "items s' \<noteq> []"
  shows "isLevelEnding s'"
  using assms
  by (cases e) (auto simp: itemSpawnerTick_def levelTimerTick_def startLevelEnding_def Let_def
      isLevelEnding_removeItem split: if_splits)

lemma level_ending_run:
  assumes "run es s = Some t" "isLevelEnding s"
    "\<forall>n\<le>length es. \<forall>u. run (take n es) s = Some u \<longrightarrow> items u \<noteq> []"
  shows "level t = level s \<and> isLevelEnding t \<and> items t \<noteq> []"
  using assms
proof (induction es arbitrary: s)
  case Nil
  from Nil.prems(3) [rule_format, of 0 s] Nil.prems(1,2) show ?case by simp
next
  case (Cons e es)
  from Cons.prems(1) obtain s1 where st: "step e s = Some s1" and r: "run es s1 = Some t"
    by (auto split: option.splits)
  from Cons.prems(3) [rule_format, of 1 s1] st have i: "items s1 \<noteq> []" by simp
  have p: "\<forall>n\<le>length es. \<forall>u. run (take n es) s1 = Some u \<longrightarrow> items u \<noteq> []"
  proof (intro allI impI)
    fix n u
    assume "n \<le> length es" "run (take n es) s1 = Some u"
    with Cons.prems(3) [rule_format, of "Suc n" u] st show "items u \<noteq> []" by simp
  qed
  from Cons.IH [OF r level_ending_kept [OF st Cons.prems(2) i] p]
    level_step_while_items [OF st i]
  show ?case by simp
qed

text \<open>
  C4. Whatever the event, the level is unchanged as long as items remain after it, and a level
  that is ending is still ending. The collection of a running game empties only when a removal
  timeout takes out the last item, and that item is caught (it was evaluated at the catch
  line); at that moment, if the level was ending, the level grows by exactly one and the time
  of the level is 20 again. When the countdown reaches zero the level timer leaves the level
  alone and marks the level as ending if there are items, and makes the level-up at once if
  there are none. Together: after the countdown has reached zero with items in the collection,
  whatever events follow, as long as the collection has not been empty the level is the one at
  the end of the countdown and the level is still ending; the event that empties the
  collection, other than a new start, is a removal timeout, and it makes the level one more and
  the time of the level 20.
\<close>

theorem level_up_waits_for_last_item:
  assumes "step e s = Some s'"
  shows "(items s' \<noteq> [] \<longrightarrow> level s' = level s) \<and>
         (e \<noteq> Start \<and> items s \<noteq> [] \<and> items s' = [] \<longrightarrow>
            (\<exists>r. e = TimeoutFires r) \<and>
            level s' = (if isLevelEnding s then level s + 1 else level s) \<and>
            (isLevelEnding s \<longrightarrow> levelTimeRemaining s' = 20)) \<and>
         (reachable s \<and> e \<noteq> Start \<longrightarrow>
            (\<forall>(r, it) \<in> set (items s). r \<notin> fst ` set (items s') \<longrightarrow> caught it)) \<and>
         ((\<exists>h. e = LevelTimerFires h) \<and> levelTimeRemaining s \<le> 1 \<longrightarrow>
            (if items s = [] then level s' = level s + 1 \<and> levelTimeRemaining s' = 20
             else level s' = level s \<and> isLevelEnding s' \<and> items s' = items s)) \<and>
         (isLevelEnding s \<and> items s' \<noteq> [] \<longrightarrow> isLevelEnding s') \<and>
         ((\<exists>h. e = LevelTimerFires h) \<and> levelTimeRemaining s \<le> 1 \<and> items s \<noteq> [] \<longrightarrow>
            (\<forall>es t. run es s' = Some t \<and>
                (\<forall>n\<le>length es. \<forall>u. run (take n es) s' = Some u \<longrightarrow> items u \<noteq> []) \<longrightarrow>
               level t = level s \<and> isLevelEnding t \<and>
               (\<forall>e' t'. step e' t = Some t' \<and> e' \<noteq> Start \<and> items t' = [] \<longrightarrow>
                  (\<exists>r. e' = TimeoutFires r) \<and> level t' = level s + 1 \<and>
                  levelTimeRemaining t' = 20)))"
proof (intro conjI impI)
  show "isLevelEnding s'" if "isLevelEnding s \<and> items s' \<noteq> []"
    using assms that by (blast intro: level_ending_kept)
  show "\<forall>es t. run es s' = Some t \<and>
          (\<forall>n\<le>length es. \<forall>u. run (take n es) s' = Some u \<longrightarrow> items u \<noteq> []) \<longrightarrow>
          level t = level s \<and> isLevelEnding t \<and>
          (\<forall>e' t'. step e' t = Some t' \<and> e' \<noteq> Start \<and> items t' = [] \<longrightarrow>
             (\<exists>r. e' = TimeoutFires r) \<and> level t' = level s + 1 \<and> levelTimeRemaining t' = 20)"
    if h: "(\<exists>h. e = LevelTimerFires h) \<and> levelTimeRemaining s \<le> 1 \<and> items s \<noteq> []"
  proof (intro allI impI)
    fix es t
    assume a: "run es s' = Some t \<and>
      (\<forall>n\<le>length es. \<forall>u. run (take n es) s' = Some u \<longrightarrow> items u \<noteq> [])"
    from h assms levelTimerTick_at_zero [of s]
    have s': "level s' = level s" "isLevelEnding s'" by (auto split: if_splits)
    from a have r: "run es s' = Some t"
      and p: "\<forall>n\<le>length es. \<forall>u. run (take n es) s' = Some u \<longrightarrow> items u \<noteq> []"
      by blast+
    from level_ending_run [OF r s'(2) p] s'(1)
    have t: "level t = level s" "isLevelEnding t" "items t \<noteq> []" by simp_all
    have "(\<exists>r. e' = TimeoutFires r) \<and> level t' = level s + 1 \<and> levelTimeRemaining t' = 20"
      if b: "step e' t = Some t' \<and> e' \<noteq> Start \<and> items t' = []" for e' t'
    proof -
      from b have st: "step e' t = Some t'" by simp
      from items_nonempty_kept [OF st] b t(3) obtain r where e': "e' = TimeoutFires r" by blast
      with st b t removeItem_last [of "t\<lparr>timeouts := remove1 r (timeouts t)\<rparr>" r]
      show ?thesis by (auto simp: levelTimeLimit_def split: if_splits)
    qed
    with t show "level t = level s \<and> isLevelEnding t \<and>
      (\<forall>e' t'. step e' t = Some t' \<and> e' \<noteq> Start \<and> items t' = [] \<longrightarrow>
         (\<exists>r. e' = TimeoutFires r) \<and> level t' = level s + 1 \<and> levelTimeRemaining t' = 20)"
      by blast
  qed
  show "level s' = level s" if "items s' \<noteq> []"
    using assms that by (rule level_step_while_items)
  show "\<exists>r. e = TimeoutFires r" if "e \<noteq> Start \<and> items s \<noteq> [] \<and> items s' = []"
    using items_nonempty_kept [OF assms] that by blast
  show "level s' = (if isLevelEnding s then level s + 1 else level s)"
    if "e \<noteq> Start \<and> items s \<noteq> [] \<and> items s' = []"
  proof -
    from items_nonempty_kept [OF assms] that obtain r where "e = TimeoutFires r" by blast
    with assms that removeItem_last(1) [of "s\<lparr>timeouts := remove1 r (timeouts s)\<rparr>" r]
    show ?thesis by (auto split: if_splits)
  qed
  show "levelTimeRemaining s' = 20"
    if "e \<noteq> Start \<and> items s \<noteq> [] \<and> items s' = []" "isLevelEnding s"
  proof -
    from items_nonempty_kept [OF assms] that obtain r where "e = TimeoutFires r" by blast
    with assms that removeItem_last(2) [of "s\<lparr>timeouts := remove1 r (timeouts s)\<rparr>" r]
    show ?thesis by (auto simp: levelTimeLimit_def split: if_splits)
  qed
  show "\<forall>(r, it) \<in> set (items s). r \<notin> fst ` set (items s') \<longrightarrow> caught it"
    if "reachable s \<and> e \<noteq> Start"
    using removed_item_was_caught [OF _ assms] that by blast
  show "if items s = [] then level s' = level s + 1 \<and> levelTimeRemaining s' = 20
        else level s' = level s \<and> isLevelEnding s' \<and> items s' = items s"
    if "(\<exists>h. e = LevelTimerFires h) \<and> levelTimeRemaining s \<le> 1"
    using that assms levelTimerTick_at_zero [of s]
    by (auto simp: levelTimeLimit_def split: if_splits)
qed

section \<open>Three games\<close>

text \<open>
  Evaluation of the engine on given events: the definitions to unfold, and the progress of an
  item of level 1 through its first 102 runs of the updater. After them the progress is
  0.8499999999999994, so that the item reaches the catch line in run 103.
\<close>

lemmas engine_defs =
  constructor_def start_def stop_def clearTimers_def setInterval_def clearInterval_def
  setTimeout_def startLevelTimer_def startItemSpawner_def startItemUpdater_def
  startLevelUpCountdown_def restartItemSpawner_def pauseForLevelUp_def nextLevel_def
  startLevelEnding_def resumeAfterLevelUp_def spawnItem_def gameOver_def missItem_def
  catchItem_def handleItemReachedBasket_def removeItem_def updateItem_def moveBasket_def
  levelTimerTick_def levelUpCountdownTick_def itemSpawnerTick_def itemUpdaterTick_def
  zones_def itemTypes_def maxMisses_def levelTimeLimit_def getDropTime_def
  js_sub_def js_mul_def js_add_def js_div_def updateInterval_def catchLine_def
  Let_def split_def

lemma step_at_2: "js_div (js_div updateInterval 1000) 2 = 4803839602528529 / 576460752303423488"
  unfolding deltaTime_val by (simp add: js_div_def fl_eval)

lemma progressAfter_numeral:
  "progressAfter (numeral n) p =
     (let q = fl (p + 4803839602528529 / 576460752303423488)
      in if 7656119366529843 / 9007199254740992 \<le> q then None
         else progressAfter (pred_numeral n) q)"
  by (simp add: numeral_eq_Suc step_at_2 catchLine_val js_add_def)

lemma progressAfter_1:
  "progressAfter (Suc 0) p =
     (let q = fl (p + 4803839602528529 / 576460752303423488)
      in if 7656119366529843 / 9007199254740992 \<le> q then None else Some q)"
  by (simp add: step_at_2 catchLine_val js_add_def Let_def)

lemma progressAfter_102: "progressAfter 102 0 = Some (3828059683264919 / 4503599627370496)"
  by (simp add: progressAfter_numeral progressAfter_1 fl_eval del: progressAfter.simps)

lemma advance_falling:
  "advance (falling t z p) =
     (let q = js_add p (js_div (js_div updateInterval 1000) 2)
      in if catchLine \<le> q then (falling t z catchLine)\<lparr>caught := True\<rparr> else falling t z q)"
  by (simp add: advance_def falling_def Let_def)

lemma caught_falling [simp]: "\<not> caught (falling t z p)"
  by (simp add: falling_def)

lemma fall_falling:
  "progressAfter n p = Some q \<Longrightarrow>
   fall n (map (\<lambda>(r, t, z). (r, falling t z p)) xs) = Some (map (\<lambda>(r, t, z). (r, falling t z q)) xs)"
proof (induction n arbitrary: p)
  case 0
  then show ?case by simp
next
  case (Suc n)
  let ?q = "js_add p (js_div (js_div updateInterval 1000) 2)"
  from Suc.prems have c: "\<not> catchLine \<le> ?q" and q: "progressAfter n ?q = Some q"
    by (simp_all add: Let_def split: if_splits)
  have a: "advance (falling t z p) = falling t z ?q" for t z
    using c by (simp add: advance_falling Let_def)
  have l: "list_all (\<lambda>x. \<not> caught (advance (snd x))) (map (\<lambda>(r, t, z). (r, falling t z p)) xs)"
    by (simp add: list_all_iff split_def a)
  have m: "map (apsnd advance) (map (\<lambda>(r, t, z). (r, falling t z p)) xs) =
      map (\<lambda>(r, t, z). (r, falling t z ?q)) xs"
    by (induction xs) (auto simp: a)
  show ?case using Suc.IH [OF q] by (simp only: fall.simps l m if_True)
qed

lemma running_falls:
  "run (replicate 102 (ItemUpdaterFires 3)) (running xs 0) =
     Some (running xs (3828059683264919 / 4503599627370496))"
proof -
  have "fall 102 (items (running xs 0)) =
      Some (map (\<lambda>(r, t, z). (r, falling t z (3828059683264919 / 4503599627370496))) xs)"
    using fall_falling [OF progressAfter_102, of xs] by (simp add: running_def)
  then have "run (replicate 102 (ItemUpdaterFires 3)) (running xs 0) =
      Some ((running xs 0)
        \<lparr>items := map (\<lambda>(r, t, z). (r, falling t z (3828059683264919 / 4503599627370496))) xs\<rparr>)"
    by (rule run_fall) (simp_all add: running_def constructor_def)
  then show ?thesis by (simp add: running_def)
qed

lemma replicate_numeral: "replicate (numeral n) x = x # replicate (pred_numeral n) x"
  by (simp add: numeral_eq_Suc)





lemma apple_spawned:
  "run [SetGameEndCallback True, Start, ItemSpawnerFires 2 0 False 0] constructor =
   Some (running [(0, itemTypes ! 1, LEFT)] 0)"
  by (simp add: running_def falling_def engine_defs fl_eval)

lemma apple_level_ending:
  "run (replicate 20 (LevelTimerFires 1))
     (running [(0, itemTypes ! 1, LEFT)] (3828059683264919 / 4503599627370496)) =
   Some ((running [(0, itemTypes ! 1, LEFT)] (3828059683264919 / 4503599627370496))
     \<lparr>levelTimeRemaining := 0, isLevelEnding := True, intervals := [(3, ItemUpdater)]\<rparr>)"
  by (simp add: running_def falling_def engine_defs replicate_numeral)

lemma apple_missed:
  "run [ItemUpdaterFires 3]
     ((running [(0, itemTypes ! 1, LEFT)] (3828059683264919 / 4503599627370496))
       \<lparr>levelTimeRemaining := 0, isLevelEnding := True, intervals := [(3, ItemUpdater)]\<rparr>) =
   Some levelEnding"
  by (simp add: levelEnding_def running_def falling_def engine_defs fl_eval)

lemma levelEnding_run:
  "run ([SetGameEndCallback True, Start, ItemSpawnerFires 2 0 False 0]
        @ replicate 102 (ItemUpdaterFires 3)
        @ replicate 20 (LevelTimerFires 1) @ [ItemUpdaterFires 3]) constructor = Some levelEnding"
  by (simp only: run_append apple_spawned running_falls apple_level_ending apple_missed
      option.case)

lemma reachable_levelEnding: "reachable levelEnding"
  using reachable_constructor levelEnding_run by (rule run_reachable)



text \<open>In the events after the one of the game-over the spawner and the updater are idle.\<close>

lemma inactive_engine_idle:
  "\<not> isGameActive s \<Longrightarrow> itemSpawnerTick zi b fi s = s \<and> itemUpdaterTick s = s"
  by (simp add: itemSpawnerTick_def itemUpdaterTick_def)

text \<open>
  C3 does not hold on the code: \<open>clearTimers\<close> cancels the intervals and not the removal
  timeouts, whose function does not look at \<open>isGameActive\<close>. The level timer reaches zero
  while an apple is in flight, the apple is missed (first miss), the game is stopped, and the
  removal timeout of the apple fires afterwards: it empties the collection and calls
  \<open>nextLevel\<close> on the stopped engine, which is then at level 2 in a level-up pause with a
  countdown interval running.
\<close>

theorem level_up_on_stopped_engine:
  "map_option (\<lambda>s. (isGameActive s, level s, isLevelUpPause s, items s, intervals s))
     (run ([SetGameEndCallback True, Start, ItemSpawnerFires 2 0 False 0]
           @ replicate 102 (ItemUpdaterFires 3)
           @ replicate 20 (LevelTimerFires 1) @ [ItemUpdaterFires 3]
           @ [Stop, TimeoutFires 0]) constructor) =
   Some (False, 2, True, [], [(4, LevelUpCountdown)])"
proof -
  have "run [Stop, TimeoutFires 0] levelEnding =
      Some (levelEnding
        \<lparr>isGameActive := False, level := 2, levelTimeRemaining := 20, isLevelEnding := False,
         isLevelUpPause := True, items := [], timeouts := [], levelTimer := None,
         itemSpawnTimer := None, itemUpdateTimer := None, levelUpCountdownTimer := Some 4,
         intervals := [(4, LevelUpCountdown)], nextTimerId := 5, outputs := [GameEnd 0 1]\<rparr>)"
    by (simp add: levelEnding_def running_def falling_def engine_defs)
  then show ?thesis
    by (simp only: run_append apple_spawned running_falls apple_level_ending apple_missed
        option.case) simp
qed

text \<open>After a restart the collection is new, and a timeout of an item of the old one finds
  nothing to remove.\<close>

lemma stale_timeout_after_restart:
  "r \<notin> fst ` set (items s) \<Longrightarrow> removeItem r s = s"
  by (simp add: removeItem_def indexOf_None [THEN iffD2])

lemma reachable_falling_apple:
  "reachable (running [(0, itemTypes ! 1, LEFT)] (3828059683264919 / 4503599627370496))"
proof -
  have "run ([SetGameEndCallback True, Start, ItemSpawnerFires 2 0 False 0]
      @ replicate 102 (ItemUpdaterFires 3)) constructor =
      Some (running [(0, itemTypes ! 1, LEFT)] (3828059683264919 / 4503599627370496))"
    by (simp only: run_append apple_spawned running_falls option.case)
  with reachable_constructor show ?thesis by (rule run_reachable)
qed

theorem caught_once_then_frozen_witness:
  "reachable (running [(0, itemTypes ! 1, LEFT)] (3828059683264919 / 4503599627370496)) \<and>
   step (ItemUpdaterFires 3)
     (running [(0, itemTypes ! 1, LEFT)] (3828059683264919 / 4503599627370496)) =
   Some ((running [] 0)
     \<lparr>missCount := 1, items := [(0, (falling (itemTypes ! 1) LEFT catchLine)\<lparr>caught := True\<rparr>)],
      timeouts := [0], nextRef := 1\<rparr>) \<and>
   \<not> caught (falling (itemTypes ! 1) LEFT (3828059683264919 / 4503599627370496)) \<and>
   progress (falling (itemTypes ! 1) LEFT (3828059683264919 / 4503599627370496)) < catchLine \<and>
   catchLine \<le> js_add (3828059683264919 / 4503599627370496)
     (js_div (js_div updateInterval 1000) 2) \<and>
   reachable levelEnding \<and> isGameActive levelEnding \<and> \<not> isLevelUpPause levelEnding \<and>
   items levelEnding = [(0, (falling (itemTypes ! 1) LEFT catchLine)\<lparr>caught := True\<rparr>)] \<and>
   step (ItemUpdaterFires 3) levelEnding = Some levelEnding"
proof -
  let ?s = "running [(0, itemTypes ! 1, LEFT)] (3828059683264919 / 4503599627370496)"
  let ?it = "falling (itemTypes ! 1) LEFT (3828059683264919 / 4503599627370496)"
  let ?it' = "(falling (itemTypes ! 1) LEFT catchLine)\<lparr>caught := True\<rparr>"
  let ?s' = "(running [] 0)\<lparr>missCount := 1, items := [(0, ?it')], timeouts := [0], nextRef := 1\<rparr>"
  have r: "reachable ?s" by (rule reachable_falling_apple)
  have st: "step (ItemUpdaterFires 3) ?s = Some ?s'"
    by (simp add: running_def falling_def engine_defs fl_eval)
  have m: "(0, ?it) \<in> set (items ?s)" "(0, ?it') \<in> set (items ?s')"
    by (simp_all add: running_def)
  have c: "(\<exists>h. ItemUpdaterFires 3 = ItemUpdaterFires h) \<and> isGameActive ?s \<and>
      \<not> isLevelUpPause ?s \<and> \<not> caught ?it"
    by (simp add: running_def constructor_def)
  from caught_once_then_frozen [OF r st m]
  have a: "progress ?it < progress ?it' \<and>
    (caught ?it' \<longleftrightarrow> catchLine \<le> js_add (progress ?it)
       (js_div (js_div updateInterval 1000) (dropTime ?it))) \<and>
    progress ?it' = (if caught ?it' then catchLine else js_add (progress ?it)
       (js_div (js_div updateInterval 1000) (dropTime ?it)))"
    unfolding if_P [OF c] .
  have i: "items levelEnding = [(0, ?it')]" "isGameActive levelEnding"
    "\<not> isLevelUpPause levelEnding"
    by (simp_all add: levelEnding_def running_def constructor_def)
  have st2: "step (ItemUpdaterFires 3) levelEnding = Some levelEnding"
    by (simp add: levelEnding_def running_def falling_def engine_defs)
  have m2: "(0, ?it') \<in> set (items levelEnding)" by (simp add: i)
  note caught_once_then_frozen [OF reachable_levelEnding st2 m2 m2]
  with a r st st2 i reachable_levelEnding show ?thesis by (simp add: falling_def)
qed

theorem level_up_waits_for_last_item_witness:
  "reachable levelEnding \<and> isLevelEnding levelEnding \<and>
   items levelEnding = [(0, (falling (itemTypes ! 1) LEFT catchLine)\<lparr>caught := True\<rparr>)] \<and>
   step (TimeoutFires 0) levelEnding =
     Some (levelEnding
       \<lparr>level := 2, levelTimeRemaining := 20, isLevelEnding := False, isLevelUpPause := True,
        items := [], timeouts := [], levelUpCountdownTimer := Some 4,
        intervals := [(3, ItemUpdater), (4, LevelUpCountdown)], nextTimerId := 5\<rparr>) \<and>
   level levelEnding + 1 = 2 \<and>
   levelTimeRemaining ((running [(0, itemTypes ! 1, LEFT)] 0)\<lparr>levelTimeRemaining := 1\<rparr>) \<le> 1 \<and>
   step (LevelTimerFires 1) ((running [(0, itemTypes ! 1, LEFT)] 0)\<lparr>levelTimeRemaining := 1\<rparr>) =
     Some ((running [(0, itemTypes ! 1, LEFT)] 0)
       \<lparr>levelTimeRemaining := 0, isLevelEnding := True, intervals := [(3, ItemUpdater)]\<rparr>) \<and>
   level (running [(0, itemTypes ! 1, LEFT)] 0) = 1 \<and>
   step (LevelTimerFires 1) ((running [] 0)\<lparr>levelTimeRemaining := 1\<rparr>) =
     Some ((running [] 0)
       \<lparr>level := 2, levelTimeRemaining := 20, isLevelUpPause := True,
        levelUpCountdownTimer := Some 4,
        intervals := [(3, ItemUpdater), (4, LevelUpCountdown)], nextTimerId := 5\<rparr>) \<and>
   step (LevelTimerFires 1)
     ((running [(0, itemTypes ! 1, LEFT)] (3828059683264919 / 4503599627370496))
        \<lparr>levelTimeRemaining := 1\<rparr>) =
     Some ((running [(0, itemTypes ! 1, LEFT)] (3828059683264919 / 4503599627370496))
        \<lparr>levelTimeRemaining := 0, isLevelEnding := True, intervals := [(3, ItemUpdater)]\<rparr>) \<and>
   run [ItemUpdaterFires 3]
     ((running [(0, itemTypes ! 1, LEFT)] (3828059683264919 / 4503599627370496))
        \<lparr>levelTimeRemaining := 0, isLevelEnding := True, intervals := [(3, ItemUpdater)]\<rparr>) =
     Some levelEnding \<and>
   step (ItemUpdaterFires 3)
     ((running [(0, itemTypes ! 1, LEFT)] (3828059683264919 / 4503599627370496))
        \<lparr>levelTimeRemaining := 0, isLevelEnding := True, intervals := [(3, ItemUpdater)]\<rparr>) =
     Some levelEnding \<and>
   level (running [(0, itemTypes ! 1, LEFT)] (3828059683264919 / 4503599627370496)) = 1 \<and>
   level levelEnding = 1"
proof -
  let ?a = "(running [(0, itemTypes ! 1, LEFT)] (3828059683264919 / 4503599627370496))
        \<lparr>levelTimeRemaining := 1\<rparr>"
  let ?a' = "(running [(0, itemTypes ! 1, LEFT)] (3828059683264919 / 4503599627370496))
        \<lparr>levelTimeRemaining := 0, isLevelEnding := True, intervals := [(3, ItemUpdater)]\<rparr>"
  let ?it = "(falling (itemTypes ! 1) LEFT catchLine)\<lparr>caught := True\<rparr>"
  let ?s' = "levelEnding
       \<lparr>level := 2, levelTimeRemaining := 20, isLevelEnding := False, isLevelUpPause := True,
        items := [], timeouts := [], levelUpCountdownTimer := Some 4,
        intervals := [(3, ItemUpdater), (4, LevelUpCountdown)], nextTimerId := 5\<rparr>"
  let ?t = "(running [(0, itemTypes ! 1, LEFT)] 0)\<lparr>levelTimeRemaining := 1\<rparr>"
  let ?t' = "(running [(0, itemTypes ! 1, LEFT)] 0)
       \<lparr>levelTimeRemaining := 0, isLevelEnding := True, intervals := [(3, ItemUpdater)]\<rparr>"
  let ?u = "(running [] 0)\<lparr>levelTimeRemaining := 1\<rparr>"
  let ?u' = "(running [] 0)
       \<lparr>level := 2, levelTimeRemaining := 20, isLevelUpPause := True,
        levelUpCountdownTimer := Some 4,
        intervals := [(3, ItemUpdater), (4, LevelUpCountdown)], nextTimerId := 5\<rparr>"
  have st: "step (TimeoutFires 0) levelEnding = Some ?s'"
    by (simp add: levelEnding_def running_def falling_def engine_defs)
  have st2: "step (LevelTimerFires 1) ?t = Some ?t'"
    by (simp add: running_def falling_def engine_defs)
  have st3: "step (LevelTimerFires 1) ?u = Some ?u'"
    by (simp add: running_def falling_def engine_defs)
  have a: "isLevelEnding levelEnding" "items levelEnding = [(0, ?it)]" "items ?s' = []"
    "levelTimeRemaining ?t \<le> 1" "items ?t \<noteq> []" "items ?t' \<noteq> []"
    "levelTimeRemaining ?u \<le> 1" "items ?u = []" "level ?t = 1" "level ?u = 1"
    by (simp_all add: levelEnding_def running_def constructor_def)
  have st4: "step (LevelTimerFires 1) ?a = Some ?a'"
    by (simp add: running_def falling_def engine_defs)
  have r4: "run [ItemUpdaterFires 3] ?a' = Some levelEnding"
    by (rule apple_missed)
  have b: "levelTimeRemaining ?a \<le> 1" "items ?a \<noteq> []" "items ?a' \<noteq> []" "level ?a = 1"
    "\<not> isLevelEnding ?a"
    by (simp_all add: running_def constructor_def)
  have p: "\<forall>n\<le>length [ItemUpdaterFires 3]. \<forall>u.
      run (take n [ItemUpdaterFires 3]) ?a' = Some u \<longrightarrow> items u \<noteq> []"
  proof (intro allI impI)
    fix n :: nat and u
    assume "n \<le> length [ItemUpdaterFires 3]" "run (take n [ItemUpdaterFires 3]) ?a' = Some u"
    moreover from this(1) have "n = 0 \<or> n = 1" by auto
    ultimately show "items u \<noteq> []" using r4 a(2) b(3) by auto
  qed
  from level_up_waits_for_last_item [OF st4] b
  have "\<forall>es t. run es ?a' = Some t \<and>
      (\<forall>n\<le>length es. \<forall>u. run (take n es) ?a' = Some u \<longrightarrow> items u \<noteq> []) \<longrightarrow>
      level t = level ?a \<and> isLevelEnding t \<and>
      (\<forall>e' t'. step e' t = Some t' \<and> e' \<noteq> Start \<and> items t' = [] \<longrightarrow>
         (\<exists>r. e' = TimeoutFires r) \<and> level t' = level ?a + 1 \<and> levelTimeRemaining t' = 20)"
    by blast
  from this [rule_format, of "[ItemUpdaterFires 3]" levelEnding] r4 p
  have c: "level levelEnding = level ?a" "isLevelEnding levelEnding"
    "\<forall>e' t'. step e' levelEnding = Some t' \<and> e' \<noteq> Start \<and> items t' = [] \<longrightarrow>
       (\<exists>r. e' = TimeoutFires r) \<and> level t' = level ?a + 1 \<and> levelTimeRemaining t' = 20"
    by blast+
  from c(3) [rule_format, of "TimeoutFires 0" ?s'] st a(3)
  have d: "level ?s' = level ?a + 1" "levelTimeRemaining ?s' = 20" by simp_all
  have st5: "step (ItemUpdaterFires 3) ?a' = Some levelEnding"
    using r4 by (auto split: option.splits)
  have "isLevelEnding ?a'" by simp
  with level_up_waits_for_last_item [OF st5] a(2)
  have f: "isLevelEnding levelEnding" "level levelEnding = level ?a'" by simp_all
  from level_up_waits_for_last_item [OF st] a reachable_levelEnding
  have "level ?s' = level levelEnding + 1" "levelTimeRemaining ?s' = 20" "caught ?it"
    by auto
  moreover from level_up_waits_for_last_item [OF st2] a
  have "level ?t' = level ?t" by blast
  moreover from level_up_waits_for_last_item [OF st3] a
  have "level ?u' = level ?u + 1" "levelTimeRemaining ?u' = 20" by auto
  ultimately show ?thesis
    using reachable_levelEnding st st2 st3 st4 st5 r4 a b c(1) d f by simp
qed

section \<open>The game-end notification\<close>

text \<open>
  C5 does not hold as stated: the game-end callback is called with the score and the level
  only. A game-over by a bomb, a game-over by misses and an explicit stop at the same score and
  level send the same notification; the two causes differ in the dialog of \<open>gameOver\<close> alone.
\<close>

theorem game_end_notification_same_for_both_causes:
  "outputs (handleItemReachedBasket (falling (itemTypes ! 0) CENTER catchLine) (running [] 0)) =
     [GameEnd 0 1, Alert BombCaught 0 1] \<and>
   outputs (handleItemReachedBasket (falling (itemTypes ! 1) LEFT catchLine)
     ((running [] 0)\<lparr>missCount := 1\<rparr>)) = [GameEnd 0 1, Alert (FruitsMissed 2) 0 1] \<and>
   outputs (stop (running [] 0)) = [GameEnd 0 1]"
  by (simp add: running_def falling_def engine_defs)

text \<open>
  C5 as amended. With a game-end callback registered, every \<open>stop\<close>, called directly or by
  \<open>gameOver\<close>, sends one game-end notification with the score and the level of that
  moment and no reason. \<open>gameOver\<close> then shows a dialog with the reason and the same score and
  level: \<open>BombCaught\<close> when a bomb is evaluated in the basket's zone, \<open>FruitsMissed 2\<close> when
  the second miss is counted; the two reasons differ. An explicit stop gives no reason.
\<close>

theorem game_end_notification:
  assumes "onGameEnd s"
  shows "outputs (stop s) = outputs s @ [GameEnd (score s) (level s)] \<and>
         outputs (gameOver r s) =
           outputs s @ [GameEnd (score s) (level s), Alert r (score s) (level s)] \<and>
         (isBomb item \<and> Zone (zone item) = basketPosition s \<longrightarrow>
            outputs (handleItemReachedBasket item s) =
              outputs s @ [GameEnd (score s) (level s), Alert BombCaught (score s) (level s)]) \<and>
         (\<not> isBomb item \<and> Zone (zone item) \<noteq> basketPosition s \<and> missCount s = 1 \<longrightarrow>
            outputs (handleItemReachedBasket item s) =
              outputs s @ (if onMissChange s then [MissChange 2] else [])
                @ [GameEnd (score s) (level s), Alert (FruitsMissed 2) (score s) (level s)]) \<and>
         BombCaught \<noteq> FruitsMissed 2"
  using assms
  by (simp add: handleItemReachedBasket_def catchItem_def missItem_def maxMisses_def Let_def)

theorem game_end_notification_witness:
  "onGameEnd (running [] 0) \<and> onGameEnd ((running [] 0)\<lparr>missCount := 1\<rparr>) \<and>
   isBomb (falling (itemTypes ! 0) CENTER catchLine) \<and>
   \<not> isBomb (falling (itemTypes ! 1) LEFT catchLine) \<and>
   basketPosition (running [] 0) = Zone CENTER \<and>
   outputs (stop (running [] 0)) = [GameEnd 0 1] \<and>
   outputs (gameOver BombCaught (running [] 0)) = [GameEnd 0 1, Alert BombCaught 0 1] \<and>
   outputs (handleItemReachedBasket (falling (itemTypes ! 0) CENTER catchLine) (running [] 0)) =
     [GameEnd 0 1, Alert BombCaught 0 1] \<and>
   outputs (handleItemReachedBasket (falling (itemTypes ! 1) LEFT catchLine)
     ((running [] 0)\<lparr>missCount := 1\<rparr>)) = [GameEnd 0 1, Alert (FruitsMissed 2) 0 1]"
  using game_end_notification [of "running [] 0" BombCaught "falling (itemTypes ! 0) CENTER catchLine"]
    game_end_notification [of "(running [] 0)\<lparr>missCount := 1\<rparr>" BombCaught
      "falling (itemTypes ! 1) LEFT catchLine"]
  by (simp add: falling_def running_def itemTypes_def constructor_def)

section \<open>The difficulty curve\<close>

lemma fl_ge:
  assumes "1 \<le> x"
  shows "x - x / 2 ^ 53 \<le> fl x"
proof -
  have x: "x \<noteq> 0" using assms by simp
  from flog2_bounds [OF x] assms have b: "2 powi flog2 x \<le> x" "x < 2 powi (flog2 x + 1)" by simp_all
  have k: "0 \<le> flog2 x"
  proof (rule ccontr)
    assume "\<not> 0 \<le> flog2 x"
    then have "flog2 x + 1 \<le> 0" by simp
    then have "(2::rat) powi (flog2 x + 1) \<le> 2 powi 0" by (rule power_int_increasing) simp
    with b(2) assms show False by simp
  qed
  then have m: "max (flog2 x - 52) (- 1074) = flog2 x - 52" by simp
  have "(2::rat) powi (flog2 x - 52) = 2 powi flog2 x / 2 powi 52"
    by (rule power_int_diff) simp
  then have "(2::rat) powi (flog2 x - 52) / 2 = 2 powi flog2 x / 2 ^ 53" by simp
  also have "\<dots> \<le> x / 2 ^ 53" using b(1) by (simp add: divide_right_mono)
  finally have "\<bar>fl x - x\<bar> \<le> x / 2 ^ 53" using fl_error [of x] unfolding m by linarith
  then show ?thesis by linarith
qed

lemma decreasePerLevel_val:
  "fl (2 / 10) = 3602879701896397 / 18014398509481984"
  "fl (1 / 5) = 3602879701896397 / 18014398509481984"
  by (simp_all add: fl_eval)

lemma getDropTime_low_levels:
  "level s = 1 \<Longrightarrow> getDropTime s = 2"
  "level s = 2 \<Longrightarrow> getDropTime s = 8106479329266893 / 4503599627370496"
  "level s = 3 \<Longrightarrow> getDropTime s = 3602879701896397 / 2251799813685248"
  "level s = 4 \<Longrightarrow> getDropTime s = 3152519739159347 / 2251799813685248"
  "level s = 5 \<Longrightarrow> getDropTime s = 5404319552844595 / 4503599627370496"
  "level s = 6 \<Longrightarrow> getDropTime s = 1"
  "level s = 7 \<Longrightarrow> getDropTime s = 900719925474099 / 1125899906842624"
  "level s = 8 \<Longrightarrow> getDropTime s = 5404319552844595 / 9007199254740992"
  by (simp_all add: getDropTime_def js_sub_def js_mul_def fl_eval)

lemma getDropTime_floor:
  assumes "9 \<le> level s"
  shows "getDropTime s = fl (6 / 10)"
proof -
  let ?d = "3602879701896397 / 18014398509481984 :: rat"
  define x where "x = of_int (level s - 1) * ?d"
  define t where "t = fl x"
  have "(8::rat) \<le> of_int (level s - 1)" using assms by linarith
  then have x8: "8 * ?d \<le> x" unfolding x_def by (rule mult_right_mono) simp
  then have "1 \<le> x" by simp
  then have "x - x / 2 ^ 53 \<le> t" unfolding t_def by (rule fl_ge)
  moreover have "8 * ?d * (1 - 1 / 2 ^ 53) \<le> x * (1 - 1 / 2 ^ 53)"
    using x8 by (rule mult_right_mono) simp
  ultimately have t: "159 / 100 \<le> t" by (simp add: algebra_simps)
  have "fl (2 - t) \<le> 42 / 100"
  proof (cases "2 - t \<le> 0")
    case True
    then have "fl (2 - t) \<le> 0" by (rule fl_nonpos)
    then show ?thesis by simp
  next
    case False
    then have "\<bar>2 - t\<bar> < 2 powi 0" using t by simp
    then have "\<bar>fl (2 - t) - (2 - t)\<bar> \<le> 2 powi (0 - 54)" by (rule fl_error_lt) simp
    then have "\<bar>fl (2 - t) - (2 - t)\<bar> \<le> 1 / 100" by simp
    with t show ?thesis by linarith
  qed
  then have "fl (2 - t) \<le> fl (6 / 10)" by (simp add: minDropTime_val)
  then show ?thesis
    by (simp add: getDropTime_def js_sub_def js_mul_def Let_def decreasePerLevel_val t_def x_def
        max_def)
qed

text \<open>
  C9 does not hold as stated at level 7. In the double arithmetic of the source \<open>6 * 0.2\<close> is
  1.2000000000000002 and \<open>2.0 - 1.2000000000000002\<close> is 0.7999999999999998, which is neither
  the double written \<open>0.8\<close> nor the number 8/10.
\<close>

theorem drop_time_at_level_7_is_not_0_8:
  "getDropTime (constructor\<lparr>level := 7\<rparr>) = 900719925474099 / 1125899906842624 \<and>
   fl (8 / 10) = 3602879701896397 / 4503599627370496 \<and>
   getDropTime (constructor\<lparr>level := 7\<rparr>) \<noteq> fl (8 / 10) \<and>
   getDropTime (constructor\<lparr>level := 7\<rparr>) \<noteq> 8 / 10"
  by (simp add: getDropTime_low_levels fl_eval)

text \<open>
  C9 as amended. \<open>getDropTime\<close> is the expression \<open>max (2.0 - (L - 1) * 0.2) 0.6\<close> of the
  source in double arithmetic and depends on the level \<open>L\<close> alone. For every level from 1 on it
  differs from the exact value of \<open>max (2 - 0.2 (L - 1)) 0.6\<close> by at most \<open>2\<^sup>-\<^sup>5\<^sup>2\<close>. It is 2
  at level 1, it is 0.7999999999999998 at level 7, and from level 8 on, so at level 20, it is
  the floor, the double written \<open>0.6\<close>.
\<close>

theorem drop_time_curve:
  assumes "1 \<le> level s"
  shows "getDropTime s =
           max (js_sub 2 (js_mul (of_int (level s - 1)) (fl (2 / 10)))) (fl (6 / 10)) \<and>
         \<bar>getDropTime s - max (2 - 2 / 10 * of_int (level s - 1)) (6 / 10)\<bar> \<le> 1 / 2 ^ 52 \<and>
         (level s = 1 \<longrightarrow> getDropTime s = 2) \<and>
         (level s = 7 \<longrightarrow> getDropTime s = 900719925474099 / 1125899906842624) \<and>
         (8 \<le> level s \<longrightarrow> getDropTime s = fl (6 / 10)) \<and>
         (level s' = level s \<longrightarrow> getDropTime s' = getDropTime s)"
proof -
  consider "level s = 1" | "level s = 2" | "level s = 3" | "level s = 4" | "level s = 5"
    | "level s = 6" | "level s = 7" | "level s = 8" | "9 \<le> level s"
    using assms by linarith
  then have "\<bar>getDropTime s - max (2 - 2 / 10 * of_int (level s - 1)) (6 / 10)\<bar> \<le> 1 / 2 ^ 52 \<and>
    (8 \<le> level s \<longrightarrow> getDropTime s = fl (6 / 10))"
  proof cases
    case 9
    then have "(8::rat) \<le> of_int (level s - 1)" by linarith
    then have "max (2 - 2 / 10 * of_int (level s - 1)) (6 / 10) = (6 / 10 :: rat)" by simp
    then show ?thesis using 9 by (simp add: getDropTime_floor minDropTime_val)
  qed (simp_all add: getDropTime_low_levels minDropTime_val)
  then show ?thesis
    by (simp add: getDropTime_low_levels) (simp add: getDropTime_def)
qed

theorem drop_time_curve_witness:
  "1 \<le> level (constructor\<lparr>level := 20\<rparr>) \<and>
   getDropTime (constructor\<lparr>level := 1\<rparr>) = 2 \<and>
   getDropTime (constructor\<lparr>level := 7\<rparr>) = 900719925474099 / 1125899906842624 \<and>
   getDropTime (constructor\<lparr>level := 20\<rparr>) = fl (6 / 10) \<and>
   fl (6 / 10) = 5404319552844595 / 9007199254740992 \<and>
   \<bar>getDropTime (constructor\<lparr>level := 7\<rparr>) - 8 / 10\<bar> \<le> 1 / 2 ^ 52 \<and>
   \<bar>getDropTime (constructor\<lparr>level := 20\<rparr>) - 6 / 10\<bar> \<le> 1 / 2 ^ 52 \<and>
   getDropTime (running [] 0) = getDropTime (constructor\<lparr>level := 1\<rparr>)"
  using drop_time_curve [where s = "constructor\<lparr>level := 20\<rparr>" and s' = constructor]
    drop_time_curve [where s = "constructor\<lparr>level := 7\<rparr>" and s' = constructor]
    drop_time_curve [where s = "constructor\<lparr>level := 1\<rparr>" and s' = "running [] 0"]
  by (simp add: minDropTime_val running_def constructor_def)

end
